theory Spec2Isabelle
  imports Main
begin

section \<open>Data model\<close>

text \<open>
  The development embeds \<^verbatim>\<open>internal/monitor/monitor.go\<close> together with the parts of
  \<^verbatim>\<open>internal/notification/telegram.go\<close>, \<^verbatim>\<open>pkg/firewall\<close> and
  \<^verbatim>\<open>internal/config\<close> that the monitor calls.

  An address is the text captured from a log line or read from the blacklist file.
  A \<^verbatim>\<open>time.Time\<close> is an integer number of nanoseconds on the process clock:
  \<^verbatim>\<open>Before\<close> is \<open><\<close>, \<^verbatim>\<open>After\<close> is \<open>>\<close> and \<^verbatim>\<open>Add\<close> is \<open>+\<close>.
  Go's \<^verbatim>\<open>int\<close> and \<^verbatim>\<open>time.Duration\<close> are 64-bit signed integers; the two places where
  the monitor does arithmetic on them wrap around, which \<open>int64\<close> writes out.
\<close>

type_synonym address = string
type_synonym instant = int

definition int64 :: "int \<Rightarrow> int" where
  "int64 x = (x + 2 ^ 63) mod 2 ^ 64 - 2 ^ 63"

record config =
  MaxFailedAttempts :: int
  BanDurationHours :: int
  LoginSuccessEnabled :: bool
  LoginFailedEnabled :: bool
  IPBannedEnabled :: bool

text \<open>\<^verbatim>\<open>time.Hour\<close> in nanoseconds, and \<^verbatim>\<open>time.Duration(BanDurationHours) * time.Hour\<close>.\<close>

definition Hour :: int where
  "Hour = 3600000000000"

definition banDuration :: "config \<Rightarrow> int" where
  "banDuration cfg = int64 (BanDurationHours cfg * Hour)"

text \<open>
  \<^verbatim>\<open>sync.RWMutex\<close>: one writer or any number of readers, and the writers that wait in
  \<^verbatim>\<open>Lock\<close>. \<^verbatim>\<open>Lock\<close> and \<^verbatim>\<open>RLock\<close> return the mutex as the caller holds it, or \<open>None\<close>
  when the call has to wait. The mutex has no owner: a goroutine that already holds it
  waits like any other. A \<^verbatim>\<open>Lock\<close> that waits has announced itself, and from then on
  \<^verbatim>\<open>RLock\<close> waits behind it, also while only readers hold the mutex: \<open>queued\<close> is the
  mutex with one more writer waiting. A reader that waits changes nothing for the calls
  that come after it, since each of them waits behind the same writer.

  The calls of the log reader and of the sweeper that take the mutex are followed one at
  a time, each from its \<^verbatim>\<open>Lock\<close> to its \<^verbatim>\<open>Unlock\<close>; so a call that finds the mutex
  held finds it held by a call that will not release it, and waits for ever.
\<close>

record rwmutex =
  writer :: bool
  readers :: nat
  waiting :: nat

definition unlocked :: rwmutex where
  "unlocked = \<lparr>writer = False, readers = 0, waiting = 0\<rparr>"

definition Lock :: "rwmutex \<Rightarrow> rwmutex option" where
  "Lock l =
     (if writer l \<or> 0 < readers l \<or> 0 < waiting l then None else Some (l\<lparr>writer := True\<rparr>))"

definition queued :: "rwmutex \<Rightarrow> rwmutex" where
  "queued l = l\<lparr>waiting := Suc (waiting l)\<rparr>"

definition Unlock :: "rwmutex \<Rightarrow> rwmutex" where
  "Unlock l = l\<lparr>writer := False\<rparr>"

definition RLock :: "rwmutex \<Rightarrow> rwmutex option" where
  "RLock l =
     (if writer l \<or> 0 < waiting l then None else Some (l\<lparr>readers := Suc (readers l)\<rparr>))"

definition RUnlock :: "rwmutex \<Rightarrow> rwmutex" where
  "RUnlock l = l\<lparr>readers := readers l - 1\<rparr>"

text \<open>
  What the monitor sends to its collaborators, in the order it sends it: log entries,
  calls of the firewall, messages handed to the Telegram bot (with whether the send
  succeeded), and the waits and seeks of the log reader.
\<close>

datatype message =
    LoginSuccessMsg address
  | LoginFailedMsg address int int
  | IPBannedMsg address int instant

datatype event =
    LogBannedAttempt address
  | LogLoginFailed address int int
  | LogBanFailed address
  | LogBanned address int instant
  | LogUnbanFailed address
  | LogUnbanned address
  | LogLoginSuccess address
  | FirewallBan address
  | FirewallUnban address
  | TelegramSend message bool
  | Sleep nat
  | SeekEnd

datatype error = OpenError | WriteError | ReadError | ErrTooLong | SendError

text \<open>
  The \<^verbatim>\<open>Monitor\<close> struct with the two maps and the mutex, the contents of the blacklist
  file on disk, and the events sent so far.
\<close>

record monitor =
  failedAttempts :: "address \<rightharpoonup> int"
  bannedIPs :: "address \<rightharpoonup> instant"
  mu :: rwmutex
  blacklistFile :: string
  out :: "event list"

definition NewMonitor :: "string \<Rightarrow> monitor" where
  "NewMonitor file =
     \<lparr>failedAttempts = Map.empty, bannedIPs = Map.empty, mu = unlocked,
      blacklistFile = file, out = []\<rparr>"

definition emit :: "event list \<Rightarrow> monitor \<Rightarrow> monitor" where
  "emit es m = m\<lparr>out := out m @ es\<rparr>"

text \<open>Reading a missing key of a Go map gives the zero value.\<close>

definition attempts :: "monitor \<Rightarrow> address \<Rightarrow> int" where
  "attempts m ip = (case failedAttempts m ip of None \<Rightarrow> 0 | Some c \<Rightarrow> c)"

text \<open>A call either returns, or waits for ever on the mutex in the state it has reached.\<close>

datatype 'a run = Returns 'a monitor | Blocks monitor

fun after :: "'a run \<Rightarrow> monitor" where
  "after (Returns _ m) = m"
| "after (Blocks m) = m"

fun returned :: "'a run \<Rightarrow> bool" where
  "returned (Returns _ _) = True"
| "returned (Blocks _) = False"

section \<open>Notification (telegram.go)\<close>

text \<open>
  \<^verbatim>\<open>SendMessage\<close> hands the text to the bot; \<open>ok\<close> is whether the bot's send succeeded.
  Each \<^verbatim>\<open>Notify...\<close> function returns without sending when its kind is disabled.
  The message keeps the arguments of the call; the display strings \<^verbatim>\<open>ipInfo\<close> and
  \<^verbatim>\<open>server\<close> are left out.
\<close>

definition SendMessage :: "bool \<Rightarrow> message \<Rightarrow> monitor \<Rightarrow> error option \<times> monitor" where
  "SendMessage ok msg m = ((if ok then None else Some SendError), emit [TelegramSend msg ok] m)"

definition NotifyLoginSuccess :: "config \<Rightarrow> bool \<Rightarrow> address \<Rightarrow> monitor \<Rightarrow> error option \<times> monitor" where
  "NotifyLoginSuccess cfg ok ip m =
     (if \<not> LoginSuccessEnabled cfg then (None, m) else SendMessage ok (LoginSuccessMsg ip) m)"

definition NotifyLoginFailed ::
  "config \<Rightarrow> bool \<Rightarrow> address \<Rightarrow> int \<Rightarrow> int \<Rightarrow> monitor \<Rightarrow> error option \<times> monitor" where
  "NotifyLoginFailed cfg ok ip n maxAttempts m =
     (if \<not> LoginFailedEnabled cfg then (None, m)
      else SendMessage ok (LoginFailedMsg ip n maxAttempts) m)"

definition NotifyIPBanned ::
  "config \<Rightarrow> bool \<Rightarrow> address \<Rightarrow> int \<Rightarrow> instant \<Rightarrow> monitor \<Rightarrow> error option \<times> monitor" where
  "NotifyIPBanned cfg ok ip duration expireTime m =
     (if \<not> IPBannedEnabled cfg then (None, m)
      else SendMessage ok (IPBannedMsg ip duration expireTime) m)"

section \<open>The ban state (monitor.go)\<close>

text \<open>\<^verbatim>\<open>isIPBanned\<close>: takes no lock; \<open>now\<close> is its reading of the clock.\<close>

definition isIPBanned :: "instant \<Rightarrow> address \<Rightarrow> monitor \<Rightarrow> bool \<times> monitor" where
  "isIPBanned now ip m =
     (case bannedIPs m ip of
        Some banTime \<Rightarrow>
          if now < banTime then (True, m)
          else (False, m\<lparr>failedAttempts := (failedAttempts m)(ip := None),
                          bannedIPs := (bannedIPs m)(ip := None)\<rparr>)
      | None \<Rightarrow> (False, m))"

text \<open>
  What the world answers during one call of \<^verbatim>\<open>handleFailedLogin\<close>: the two readings of
  the clock, whether \<^verbatim>\<open>ufw\<close> accepted the rule, whether the blacklist file could be
  opened, the order in which \<^verbatim>\<open>range\<close> visits the keys of the map, what each
  \<^verbatim>\<open>WriteString\<close> did, and whether each Telegram send succeeded.
  \<^verbatim>\<open>WriteString\<close> returns the number of bytes written with its error; the source drops
  the number, the file keeps the bytes.
\<close>

datatype write_result = Written | WriteFailed nat

record env =
  nowCheck :: instant
  nowBan :: instant
  banOk :: bool
  openOk :: bool
  keyOrder :: "address list"
  writeRes :: "address \<Rightarrow> write_result"
  sendBannedOk :: bool
  sendFailedOk :: bool
  sendSuccessOk :: bool

definition newline :: char where
  "newline = CHR 0x0A"

text \<open>
  The loop of \<^verbatim>\<open>saveBlacklist\<close>, entered with the read lock held. A failed write returns
  at once, without \<^verbatim>\<open>RUnlock\<close>.
\<close>

fun writeAll :: "(address \<Rightarrow> write_result) \<Rightarrow> address list \<Rightarrow> monitor \<Rightarrow> error option run" where
  "writeAll wr [] m = Returns None (m\<lparr>mu := RUnlock (mu m)\<rparr>)"
| "writeAll wr (ip # ips) m =
     (case wr ip of
        Written \<Rightarrow> writeAll wr ips (m\<lparr>blacklistFile := blacklistFile m @ ip @ [newline]\<rparr>)
      | WriteFailed n \<Rightarrow>
          Returns (Some WriteError)
            (m\<lparr>blacklistFile := blacklistFile m @ take n (ip @ [newline])\<rparr>))"

text \<open>
  \<^verbatim>\<open>saveBlacklist\<close>: the file is opened with \<^verbatim>\<open>O_TRUNC\<close>, so it is empty as soon as the
  open succeeds; only then is the read lock requested.
\<close>

definition saveBlacklist ::
  "bool \<Rightarrow> address list \<Rightarrow> (address \<Rightarrow> write_result) \<Rightarrow> monitor \<Rightarrow> error option run" where
  "saveBlacklist opened keys wr m =
     (if \<not> opened then Returns (Some OpenError) m
      else let m1 = m\<lparr>blacklistFile := []\<rparr> in
        case RLock (mu m1) of
          None \<Rightarrow> Blocks m1
        | Some l \<Rightarrow> writeAll wr keys (m1\<lparr>mu := l\<rparr>))"

text \<open>\<^verbatim>\<open>banIP\<close>: the error that \<^verbatim>\<open>saveBlacklist\<close> returns is dropped.\<close>

definition banIP :: "config \<Rightarrow> env \<Rightarrow> address \<Rightarrow> monitor \<Rightarrow> unit run" where
  "banIP cfg e ip m =
     (let banTime = nowBan e + banDuration cfg;
          m1 = emit [FirewallBan ip] (m\<lparr>bannedIPs := (bannedIPs m)(ip \<mapsto> banTime)\<rparr>)
      in if \<not> banOk e then Returns () (emit [LogBanFailed ip] m1)
         else case saveBlacklist (openOk e) (keyOrder e) (writeRes e) m1 of
                Blocks m2 \<Rightarrow> Blocks m2
              | Returns _ m2 \<Rightarrow>
                  Returns ()
                    (snd (NotifyIPBanned cfg (sendBannedOk e) ip (banDuration cfg) banTime
                       (emit [LogBanned ip (BanDurationHours cfg) banTime] m2))))"

text \<open>
  \<^verbatim>\<open>handleFailedLogin\<close>: the write lock is held from the first line to the return
  (\<^verbatim>\<open>defer m.mu.Unlock()\<close>), so \<^verbatim>\<open>banIP\<close> and \<^verbatim>\<open>saveBlacklist\<close> run under it.
\<close>

definition handleFailedLogin :: "config \<Rightarrow> env \<Rightarrow> address \<Rightarrow> monitor \<Rightarrow> unit run" where
  "handleFailedLogin cfg e ip m =
     (case Lock (mu m) of
        None \<Rightarrow> Blocks (m\<lparr>mu := queued (mu m)\<rparr>)
      | Some l \<Rightarrow>
          (case isIPBanned (nowCheck e) ip (m\<lparr>mu := l\<rparr>) of
             (True, m1) \<Rightarrow>
               (let m2 = emit [LogBannedAttempt ip] m1 in Returns () (m2\<lparr>mu := Unlock (mu m2)\<rparr>))
           | (False, m1) \<Rightarrow>
               (let n = int64 (attempts m1 ip + 1);
                    m2 = emit [LogLoginFailed ip n (MaxFailedAttempts cfg)]
                           (m1\<lparr>failedAttempts := (failedAttempts m1)(ip \<mapsto> n)\<rparr>)
                in case (if MaxFailedAttempts cfg \<le> n then banIP cfg e ip m2 else Returns () m2) of
                     Blocks m3 \<Rightarrow> Blocks m3
                   | Returns u m3 \<Rightarrow>
                       (let m4 = snd (NotifyLoginFailed cfg (sendFailedOk e) ip (attempts m3 ip)
                                        (MaxFailedAttempts cfg) m3)
                        in Returns () (m4\<lparr>mu := Unlock (mu m4)\<rparr>)))))"

text \<open>\<^verbatim>\<open>handleSuccessfulLogin\<close>: takes no lock and touches neither map.\<close>

definition handleSuccessfulLogin :: "config \<Rightarrow> bool \<Rightarrow> address \<Rightarrow> monitor \<Rightarrow> monitor" where
  "handleSuccessfulLogin cfg ok ip m =
     snd (NotifyLoginSuccess cfg ok ip (emit [LogLoginSuccess ip] m))"

section \<open>The expiry sweep\<close>

text \<open>
  The body of \<^verbatim>\<open>cleanupBannedIPs\<close> for one tick of its ticker. \<open>keys\<close> is the order in
  which \<^verbatim>\<open>range\<close> visits the map; \<open>clock ip\<close> is the reading of the clock when \<open>ip\<close> is
  visited and \<open>unbanOk ip\<close> whether \<^verbatim>\<open>ufw\<close> deleted its rule. Deleting the entry under
  visit does not disturb the iteration.
\<close>

fun sweep :: "(address \<Rightarrow> instant) \<Rightarrow> (address \<Rightarrow> bool) \<Rightarrow> address list \<Rightarrow> monitor \<Rightarrow> monitor" where
  "sweep clock unbanOk [] m = m"
| "sweep clock unbanOk (ip # ips) m =
     sweep clock unbanOk ips
       (case bannedIPs m ip of
          None \<Rightarrow> m
        | Some banTime \<Rightarrow>
            if banTime < clock ip then
              (let m1 = emit [FirewallUnban ip,
                              if unbanOk ip then LogUnbanned ip else LogUnbanFailed ip] m
               in m1\<lparr>failedAttempts := (failedAttempts m1)(ip := None),
                      bannedIPs := (bannedIPs m1)(ip := None)\<rparr>)
            else m)"

definition cleanupBannedIPs ::
  "(address \<Rightarrow> instant) \<Rightarrow> (address \<Rightarrow> bool) \<Rightarrow> address list \<Rightarrow> monitor \<Rightarrow> unit run" where
  "cleanupBannedIPs clock unbanOk keys m =
     (case Lock (mu m) of
        None \<Rightarrow> Blocks (m\<lparr>mu := queued (mu m)\<rparr>)
      | Some l \<Rightarrow>
          (let m1 = sweep clock unbanOk keys (m\<lparr>mu := l\<rparr>)
           in Returns () (m1\<lparr>mu := Unlock (mu m1)\<rparr>)))"

section \<open>Loading the blacklist\<close>

text \<open>
  \<^verbatim>\<open>bufio.Scanner\<close> with the default split function: the input is cut at each newline,
  one trailing carriage return is dropped from each line, a last line without a
  newline is delivered when it is not empty, and a line of \<open>MaxScanTokenSize\<close> bytes or
  more stops the scan with \<^verbatim>\<open>ErrTooLong\<close>. The result is the lines delivered and
  whether the scan stopped so.
\<close>

definition MaxScanTokenSize :: nat where
  "MaxScanTokenSize = 65536"

definition dropCR :: "string \<Rightarrow> string" where
  "dropCR s = (if s \<noteq> [] \<and> last s = CHR 0x0D then butlast s else s)"

fun scanLines :: "string \<Rightarrow> string \<Rightarrow> string list \<times> bool" where
  "scanLines cur [] = ((if cur = [] then [] else [dropCR cur]), False)"
| "scanLines cur (c # cs) =
     (if c = newline then (dropCR cur # fst (scanLines [] cs), snd (scanLines [] cs))
      else if MaxScanTokenSize \<le> Suc (length cur) then ([], True)
      else scanLines (cur @ [c]) cs)"

text \<open>The body of the loop of \<^verbatim>\<open>loadBlacklist\<close>; \<open>clock i\<close> is the clock at line \<open>i\<close>.\<close>

fun loadLines :: "int \<Rightarrow> (nat \<Rightarrow> instant) \<Rightarrow> nat \<Rightarrow> string list \<Rightarrow> monitor \<Rightarrow> monitor" where
  "loadLines d clock i [] m = m"
| "loadLines d clock i (ip # ips) m =
     loadLines d clock (Suc i) ips
       (if ip \<noteq> [] then m\<lparr>bannedIPs := (bannedIPs m)(ip \<mapsto> clock i + d)\<rparr> else m)"

text \<open>
  \<^verbatim>\<open>loadBlacklist\<close>: \<open>readable\<close> is how many bytes of the file can be read before a
  read fails (\<open>None\<close>: all of it). The scanner delivers what it has read and then
  reports the read error. No lock is taken.
\<close>

definition loadBlacklist ::
  "config \<Rightarrow> bool \<Rightarrow> nat option \<Rightarrow> (nat \<Rightarrow> instant) \<Rightarrow> monitor \<Rightarrow> error option \<times> monitor" where
  "loadBlacklist cfg opened readable clock m =
     (if \<not> opened then (Some OpenError, m)
      else
        let input = (case readable of None \<Rightarrow> blacklistFile m | Some k \<Rightarrow> take k (blacklistFile m));
            scanned = scanLines [] input;
            m1 = loadLines (banDuration cfg) clock 0 (fst scanned) m
        in ((if snd scanned then Some ErrTooLong
             else if readable \<noteq> None then Some ReadError else None), m1))"

section \<open>Reading the log\<close>

text \<open>
  \<^verbatim>\<open>strings.Contains\<close>, and the leftmost match of the expression
  \<^verbatim>\<open>from (\d+\.\d+\.\d+\.\d+)\<close> with its captured group. Each \<^verbatim>\<open>\d+\<close> is followed by a
  character that is not a digit, so it can only match a whole run of digits.
\<close>

fun contains :: "string \<Rightarrow> string \<Rightarrow> bool" where
  "contains sub [] = (sub = [])"
| "contains sub (c # cs) = (take (length sub) (c # cs) = sub \<or> contains sub cs)"

definition isDigit :: "char \<Rightarrow> bool" where
  "isDigit c = (c \<in> set ''0123456789'')"

definition digitsDot :: "string \<Rightarrow> (string \<times> string) option" where
  "digitsDot s =
     (let ds = takeWhile isDigit s in
      if ds = [] then None
      else case dropWhile isDigit s of
             [] \<Rightarrow> None
           | c # r \<Rightarrow> if c = CHR ''.'' then Some (ds @ [c], r) else None)"

definition matchIPv4 :: "string \<Rightarrow> string option" where
  "matchIPv4 s =
     (case digitsDot s of
        None \<Rightarrow> None
      | Some (a, r1) \<Rightarrow>
          (case digitsDot r1 of
             None \<Rightarrow> None
           | Some (b, r2) \<Rightarrow>
               (case digitsDot r2 of
                  None \<Rightarrow> None
                | Some (c, r3) \<Rightarrow>
                    (let d = takeWhile isDigit r3 in
                     if d = [] then None else Some (a @ b @ c @ d)))))"

fun findSubmatch :: "string \<Rightarrow> string option" where
  "findSubmatch [] = None"
| "findSubmatch (c # cs) =
     (case (if take 5 (c # cs) = ''from '' then matchIPv4 (drop 5 (c # cs)) else None) of
        Some ip \<Rightarrow> Some ip
      | None \<Rightarrow> findSubmatch cs)"

text \<open>
  What \<^verbatim>\<open>ReadString\<close> returns: a line, end of stream, or another error. \<^verbatim>\<open>monitorSSHLogs\<close>
  loops for ever, so the model runs it on the reads that have happened so far (each
  with what the world answers to the handler): it has stopped with an error, is
  waiting in a handler, or is still reading.
\<close>

datatype read = Line string | EndOfStream | ReadFailed

text \<open>The wait after an end of stream, \<^verbatim>\<open>100 * time.Millisecond\<close>, in milliseconds.\<close>

definition pollMillis :: nat where
  "pollMillis = 100"

datatype tail = Fatal error monitor | Stuck monitor | Reading monitor

fun tailLoop :: "config \<Rightarrow> (read \<times> env) list \<Rightarrow> monitor \<Rightarrow> tail" where
  "tailLoop cfg [] m = Reading m"
| "tailLoop cfg ((EndOfStream, e) # rs) m = tailLoop cfg rs (emit [Sleep pollMillis] m)"
| "tailLoop cfg ((ReadFailed, e) # rs) m = Fatal ReadError m"
| "tailLoop cfg ((Line l, e) # rs) m =
     (if contains ''Failed password'' l then
        (case findSubmatch l of
           Some ip \<Rightarrow>
             (case handleFailedLogin cfg e ip m of
                Returns u m1 \<Rightarrow> tailLoop cfg rs m1
              | Blocks m1 \<Rightarrow> Stuck m1)
         | None \<Rightarrow> tailLoop cfg rs m)
      else if contains ''Accepted password'' l then
        (case findSubmatch l of
           Some ip \<Rightarrow> tailLoop cfg rs (handleSuccessfulLogin cfg (sendSuccessOk e) ip m)
         | None \<Rightarrow> tailLoop cfg rs m)
      else tailLoop cfg rs m)"

definition monitorSSHLogs :: "config \<Rightarrow> bool \<Rightarrow> (read \<times> env) list \<Rightarrow> monitor \<Rightarrow> tail" where
  "monitorSSHLogs cfg opened rs m =
     (if \<not> opened then Fatal OpenError m else tailLoop cfg rs (emit [SeekEnd] m))"

text \<open>The state of the monitor when the tailer is observed.\<close>

fun tailState :: "tail \<Rightarrow> monitor" where
  "tailState (Fatal err m) = m"
| "tailState (Stuck m) = m"
| "tailState (Reading m) = m"

section \<open>Runs of the monitor\<close>

text \<open>
  The operations that act on the two maps, each with what the world answers to it, and
  the state a sequence of them leaves behind, whether the last call returned or not.
\<close>

datatype op =
    FailedLogin address env
  | SuccessfulLogin address bool
  | BanCheck address instant
  | SweeperTick "address \<Rightarrow> instant" "address \<Rightarrow> bool" "address list"

fun apply_op :: "config \<Rightarrow> op \<Rightarrow> monitor \<Rightarrow> monitor" where
  "apply_op cfg (FailedLogin ip e) m = after (handleFailedLogin cfg e ip m)"
| "apply_op cfg (SuccessfulLogin ip ok) m = handleSuccessfulLogin cfg ok ip m"
| "apply_op cfg (BanCheck ip now) m = snd (isIPBanned now ip m)"
| "apply_op cfg (SweeperTick clock unbanOk keys) m = after (cleanupBannedIPs clock unbanOk keys m)"

fun exec :: "config \<Rightarrow> op list \<Rightarrow> monitor \<Rightarrow> monitor" where
  "exec cfg [] m = m"
| "exec cfg (x # xs) m = exec cfg xs (apply_op cfg x m)"

text \<open>The readings of the clock against which an operation compares the expiry of \<open>ip\<close>.\<close>

fun readings :: "op \<Rightarrow> address \<Rightarrow> instant list" where
  "readings (FailedLogin a e) ip = (if a = ip then [nowCheck e] else [])"
| "readings (SuccessfulLogin a ok) ip = []"
| "readings (BanCheck a now) ip = (if a = ip then [now] else [])"
| "readings (SweeperTick clock unbanOk keys) ip = [clock ip]"

text \<open>The operations that begin by taking the write lock.\<close>

fun takesLock :: "op \<Rightarrow> bool" where
  "takesLock (FailedLogin ip e) = True"
| "takesLock (SuccessfulLogin ip ok) = False"
| "takesLock (BanCheck ip now) = False"
| "takesLock (SweeperTick clock unbanOk keys) = True"

section \<open>Notions used in the statements\<close>

text \<open>
  The state in which \<^verbatim>\<open>Start\<close> leaves the monitor before any event is handled: a new
  monitor that has loaded the blacklist file.
\<close>

definition started :: "config \<Rightarrow> bool \<Rightarrow> nat option \<Rightarrow> (nat \<Rightarrow> instant) \<Rightarrow> string \<Rightarrow> monitor" where
  "started cfg opened readable clock file =
     snd (loadBlacklist cfg opened readable clock (NewMonitor file))"

text \<open>
  Every recorded count lies between 1 and the threshold, and below the threshold as long
  as the address has no Ban Record.
\<close>

definition counted :: "config \<Rightarrow> monitor \<Rightarrow> bool" where
  "counted cfg m =
     (\<forall>ip c. failedAttempts m ip = Some c \<longrightarrow>
        1 \<le> c \<and> c \<le> MaxFailedAttempts cfg
      \<and> (bannedIPs m ip = None \<longrightarrow> c < MaxFailedAttempts cfg))"

text \<open>The Ban Record of \<open>ip\<close> has passed its expiry when the sweep visits it.\<close>

definition due :: "(address \<Rightarrow> instant) \<Rightarrow> monitor \<Rightarrow> address \<Rightarrow> bool" where
  "due clock m ip = (case bannedIPs m ip of None \<Rightarrow> False | Some banTime \<Rightarrow> banTime < clock ip)"

text \<open>What one visit of the sweep sends for an expired address.\<close>

definition unbanEvents :: "(address \<Rightarrow> bool) \<Rightarrow> address \<Rightarrow> event list" where
  "unbanEvents unbanOk ip = [FirewallUnban ip, if unbanOk ip then LogUnbanned ip else LogUnbanFailed ip]"

text \<open>
  An address that survives being written as a line and scanned back: not empty, without
  a newline, not ending in a carriage return, and shorter than the scanner's limit.
\<close>

definition lineSafe :: "address \<Rightarrow> bool" where
  "lineSafe ip =
     (ip \<noteq> [] \<and> newline \<notin> set ip \<and> last ip \<noteq> CHR 0x0D \<and> length ip < MaxScanTokenSize)"

text \<open>The text that a completed save leaves in the file.\<close>

definition savedLines :: "address list \<Rightarrow> string" where
  "savedLines keys = concat (map (\<lambda>ip. ip @ [newline]) keys)"

text \<open>An event without the outcome of its send, and the events that are sends.\<close>

fun quiet :: "event \<Rightarrow> event" where
  "quiet (TelegramSend msg ok) = TelegramSend msg True"
| "quiet ev = ev"

fun isSend :: "event \<Rightarrow> bool" where
  "isSend (TelegramSend msg ok) = True"
| "isSend ev = False"

section \<open>Example inputs\<close>

text \<open>Threshold 3, bans of 24 hours, every kind of notification enabled.\<close>

definition cfg3 :: config where
  "cfg3 = \<lparr>MaxFailedAttempts = 3, BanDurationHours = 24, LoginSuccessEnabled = True,
           LoginFailedEnabled = True, IPBannedEnabled = True\<rparr>"

text \<open>
  A world in which every collaborator answers well, at time \<open>t\<close>; the same world with a
  firewall that refuses the rule, with a blacklist file that cannot be opened, and with
  Telegram refusing every message.
\<close>

definition calm :: "instant \<Rightarrow> env" where
  "calm t = \<lparr>nowCheck = t, nowBan = t, banOk = True, openOk = True, keyOrder = [''10.0.0.1''],
            writeRes = (\<lambda>ip. Written), sendBannedOk = True, sendFailedOk = True,
            sendSuccessOk = True\<rparr>"

definition refusing :: "instant \<Rightarrow> env" where
  "refusing t = (calm t)\<lparr>banOk := False\<rparr>"

definition unopened :: "instant \<Rightarrow> env" where
  "unopened t = (calm t)\<lparr>openOk := False\<rparr>"

definition deaf :: "instant \<Rightarrow> env" where
  "deaf t = (calm t)\<lparr>sendBannedOk := False, sendFailedOk := False, sendSuccessOk := False\<rparr>"

text \<open>A new monitor after two and after three failed logins of \<open>10.0.0.1\<close>.\<close>

definition twoFailures :: monitor where
  "twoFailures =
     exec cfg3 [FailedLogin ''10.0.0.1'' (calm 1), FailedLogin ''10.0.0.1'' (calm 2)] (NewMonitor [])"

definition thirdFailure :: monitor where
  "thirdFailure = after (handleFailedLogin cfg3 (calm 3) ''10.0.0.1'' twoFailures)"

text \<open>
  The third failure of \<open>10.0.0.1\<close> with a firewall that refuses the rule; after it two
  failures of \<open>10.0.0.2\<close>; after these a third failure of \<open>10.0.0.2\<close>, in a world
  where every collaborator answers well and both banned addresses are written.
\<close>

definition bothKeys :: "instant \<Rightarrow> env" where
  "bothKeys t = (calm t)\<lparr>keyOrder := [''10.0.0.1'', ''10.0.0.2'']\<rparr>"

definition refusedBan :: monitor where
  "refusedBan = after (handleFailedLogin cfg3 (refusing 3) ''10.0.0.1'' twoFailures)"

definition otherTwice :: monitor where
  "otherTwice =
     exec cfg3 [FailedLogin ''10.0.0.2'' (calm 4), FailedLogin ''10.0.0.2'' (calm 5)] refusedBan"

definition otherBanned :: monitor where
  "otherBanned = after (handleFailedLogin cfg3 (bothKeys 6) ''10.0.0.2'' otherTwice)"

text \<open>A ban of 24 hours made at time 0.\<close>

definition dayBan :: monitor where
  "dayBan = (NewMonitor [])\<lparr>failedAttempts := [''10.0.0.2'' \<mapsto> 3],
                             bannedIPs := [''10.0.0.2'' \<mapsto> 24 * Hour]\<rparr>"

text \<open>
  Five bans, of which the first two expire at 10 and 20 and the others at 100, and an
  order in which the sweep may visit them.
\<close>

definition fiveBans :: monitor where
  "fiveBans = (NewMonitor [])
     \<lparr>failedAttempts := [''10.0.0.1'' \<mapsto> 3, ''10.0.0.2'' \<mapsto> 3, ''10.0.0.3'' \<mapsto> 3,
                         ''10.0.0.4'' \<mapsto> 3, ''10.0.0.5'' \<mapsto> 3],
      bannedIPs := [''10.0.0.1'' \<mapsto> 10, ''10.0.0.2'' \<mapsto> 20, ''10.0.0.3'' \<mapsto> 100,
                    ''10.0.0.4'' \<mapsto> 100, ''10.0.0.5'' \<mapsto> 100]\<rparr>"

definition fiveKeys :: "address list" where
  "fiveKeys = [''10.0.0.3'', ''10.0.0.1'', ''10.0.0.4'', ''10.0.0.2'', ''10.0.0.5'']"

text \<open>A monitor started on a blacklist file that lists one address, at time 0.\<close>

definition restored :: monitor where
  "restored = started cfg3 True None (\<lambda>i. 0) (''10.0.0.9'' @ [newline])"

text \<open>The same monitor after a first failed login of another address.\<close>

definition oneLater :: monitor where
  "oneLater = exec cfg3 [FailedLogin ''10.0.0.1'' (calm 1)] restored"

text \<open>
  The same monitor after two failed logins of that address; a world in which every
  collaborator answers well and the save visits \<open>10.0.0.9\<close> before \<open>10.0.0.1\<close>; the
  same world with a disk on which the write of the second line fails; and the monitor
  after the third failed login.
\<close>

definition restoredTwice :: monitor where
  "restoredTwice =
     exec cfg3 [FailedLogin ''10.0.0.1'' (calm 1), FailedLogin ''10.0.0.1'' (calm 2)] restored"

definition afterRestore :: "instant \<Rightarrow> env" where
  "afterRestore t = (calm t)\<lparr>keyOrder := [''10.0.0.9'', ''10.0.0.1'']\<rparr>"

definition fullDisk :: "instant \<Rightarrow> env" where
  "fullDisk t =
     (afterRestore t)\<lparr>writeRes := (\<lambda>ip. if ip = ''10.0.0.1'' then WriteFailed 0 else Written)\<rparr>"

definition secondBan :: monitor where
  "secondBan = after (handleFailedLogin cfg3 (afterRestore 3) ''10.0.0.1'' restoredTwice)"

text \<open>Two bans made at different times, and the order in which they are written.\<close>

definition twoBans :: monitor where
  "twoBans = (NewMonitor ''old contents'')
     \<lparr>failedAttempts := [''10.0.0.1'' \<mapsto> 3, ''10.0.0.22'' \<mapsto> 3],
      bannedIPs := [''10.0.0.1'' \<mapsto> 10 + 24 * Hour, ''10.0.0.22'' \<mapsto> 20 + 24 * Hour]\<rparr>"

definition twoKeys :: "address list" where
  "twoKeys = [''10.0.0.1'', ''10.0.0.22'']"

text \<open>A new monitor that has sought the end of the log and handled one failed login.\<close>

definition seekFailure :: monitor where
  "seekFailure =
     after (handleFailedLogin cfg3 (calm 1) ''10.0.0.1'' ((NewMonitor [])\<lparr>out := [SeekEnd]\<rparr>))"

text \<open>A line of \<^verbatim>\<open>auth.log\<close> for a failed password, and one for an accepted password.\<close>

definition failedLine :: string where
  "failedLine = ''sshd[811]: Failed password for root from 10.0.0.1 port 22 ssh2'' @ [newline]"

definition acceptedLine :: string where
  "acceptedLine = ''sshd[812]: Accepted password for ann from 10.0.0.7 port 22 ssh2'' @ [newline]"

section \<open>Properties\<close>

subsection \<open>Arithmetic and the mutex\<close>

lemma int64_id: "- (2 ^ 63) \<le> x \<Longrightarrow> x < 2 ^ 63 \<Longrightarrow> int64 x = x"
  by (simp add: int64_def)

lemma Lock_unlocked: "Lock unlocked = Some (unlocked\<lparr>writer := True\<rparr>)"
  by (simp add: Lock_def unlocked_def)

lemma Unlock_Lock: "Unlock (unlocked\<lparr>writer := True\<rparr>) = unlocked"
  by (simp add: Unlock_def unlocked_def)

lemma RLock_held: "RLock (unlocked\<lparr>writer := True\<rparr>) = None"
  by (simp add: RLock_def unlocked_def)

lemma Lock_held: "writer l \<or> 0 < readers l \<or> 0 < waiting l \<Longrightarrow> Lock l = None"
  by (simp add: Lock_def)

subsection \<open>Lazy expiry\<close>

lemma isIPBanned_mu:
  "isIPBanned now ip (m\<lparr>mu := l\<rparr>) =
     (fst (isIPBanned now ip m), (snd (isIPBanned now ip m))\<lparr>mu := l\<rparr>)"
  by (simp add: isIPBanned_def split: option.splits)

lemma isIPBanned_keeps:
  "mu (snd (isIPBanned now ip m)) = mu m"
  "blacklistFile (snd (isIPBanned now ip m)) = blacklistFile m"
  "out (snd (isIPBanned now ip m)) = out m"
  by (simp_all add: isIPBanned_def split: option.splits)

lemma isIPBanned_false:
  "\<not> fst (isIPBanned now ip m) \<Longrightarrow> bannedIPs (snd (isIPBanned now ip m)) ip = None"
  by (simp add: isIPBanned_def split: option.splits if_splits)

text \<open>
  C2. For an address that holds a Ban Record: while the clock is before \<open>expiresAt\<close>,
  \<open>isIPBanned\<close> answers true and changes nothing; once the clock is at or past
  \<open>expiresAt\<close>, it answers false and has removed the Ban Record and the Attempt Record of
  that address (and of no other), so the address is no longer among the banned
  addresses. The sweep plays no part in this.
\<close>

theorem isIPBanned_lazy_expiry:
  assumes "bannedIPs m ip = Some expiresAt"
  shows "(now < expiresAt \<longrightarrow> isIPBanned now ip m = (True, m))
       \<and> (expiresAt \<le> now \<longrightarrow>
            \<not> fst (isIPBanned now ip m)
          \<and> bannedIPs (snd (isIPBanned now ip m)) ip = None
          \<and> failedAttempts (snd (isIPBanned now ip m)) ip = None
          \<and> ip \<notin> dom (bannedIPs (snd (isIPBanned now ip m)))
          \<and> (\<forall>a. a \<noteq> ip \<longrightarrow>
                 bannedIPs (snd (isIPBanned now ip m)) a = bannedIPs m a
               \<and> failedAttempts (snd (isIPBanned now ip m)) a = failedAttempts m a))"
  using assms by (simp add: isIPBanned_def)

text \<open>A ban of 24 hours made at time 0, asked one minute before and one minute after.\<close>

theorem isIPBanned_lazy_expiry_witness:
  "bannedIPs dayBan ''10.0.0.2'' = Some (24 * Hour)
   \<and> fst (isIPBanned (24 * Hour - 60000000000) ''10.0.0.2'' dayBan)
   \<and> \<not> fst (isIPBanned (24 * Hour + 60000000000) ''10.0.0.2'' dayBan)
   \<and> bannedIPs (snd (isIPBanned (24 * Hour + 60000000000) ''10.0.0.2'' dayBan)) ''10.0.0.2'' = None
   \<and> failedAttempts (snd (isIPBanned (24 * Hour + 60000000000) ''10.0.0.2'' dayBan)) ''10.0.0.2'' = None"
proof -
  have b: "bannedIPs dayBan ''10.0.0.2'' = Some (24 * Hour)"
    by (simp add: dayBan_def NewMonitor_def)
  show ?thesis
    using b isIPBanned_lazy_expiry [OF b, of "24 * Hour - 60000000000"]
      isIPBanned_lazy_expiry [OF b, of "24 * Hour + 60000000000"]
    by (simp add: Hour_def)
qed

subsection \<open>The failure handler, outcome by outcome\<close>

text \<open>
  The handler waits when the mutex is held; it rejects the attempt of a banned address;
  it counts the attempt of any other. When the count reaches the threshold three things
  can happen: the firewall refuses the rule, or it accepts the rule and the blacklist
  file cannot be opened (the handler returns in both cases), or it accepts the rule and
  the file opens. Then \<open>saveBlacklist\<close> asks for the read lock while the handler holds
  the write lock, and the handler waits for itself: it never returns.
\<close>

lemma handleFailedLogin_waits:
  "writer (mu m) \<or> 0 < readers (mu m) \<or> 0 < waiting (mu m) \<Longrightarrow>
   handleFailedLogin cfg e ip m = Blocks (m\<lparr>mu := queued (mu m)\<rparr>)"
  by (simp add: handleFailedLogin_def Lock_held)

lemma handleFailedLogin_rejects:
  assumes "mu m = unlocked" and "bannedIPs m ip = Some t" and "nowCheck e < t"
  shows "handleFailedLogin cfg e ip m = Returns () (emit [LogBannedAttempt ip] m)"
  using assms
  by (simp add: handleFailedLogin_def Lock_unlocked isIPBanned_def emit_def Unlock_Lock)

lemma handleFailedLogin_counts:
  assumes "mu m = unlocked" and "\<not> fst (isIPBanned (nowCheck e) ip m)"
    and "m1 = snd (isIPBanned (nowCheck e) ip m)" and "n = int64 (attempts m1 ip + 1)"
    and "n < MaxFailedAttempts cfg"
  shows "handleFailedLogin cfg e ip m =
     Returns ()
       (m1\<lparr>failedAttempts := (failedAttempts m1)(ip \<mapsto> n),
            out := out m @ LogLoginFailed ip n (MaxFailedAttempts cfg) #
              (if LoginFailedEnabled cfg
               then [TelegramSend (LoginFailedMsg ip n (MaxFailedAttempts cfg)) (sendFailedOk e)]
               else [])\<rparr>)"
proof -
  have "mu m1 = unlocked" "out m1 = out m"
    using assms(1,3) by (simp_all add: isIPBanned_keeps)
  then show ?thesis
    using assms
    by (cases "isIPBanned (nowCheck e) ip m")
      (simp add: handleFailedLogin_def Lock_unlocked isIPBanned_mu emit_def Unlock_Lock attempts_def
        NotifyLoginFailed_def SendMessage_def Let_def)
qed

lemma handleFailedLogin_ban_blocks:
  assumes "mu m = unlocked" and "\<not> fst (isIPBanned (nowCheck e) ip m)"
    and "m1 = snd (isIPBanned (nowCheck e) ip m)" and "n = int64 (attempts m1 ip + 1)"
    and "MaxFailedAttempts cfg \<le> n" and "banOk e" and "openOk e"
  shows "handleFailedLogin cfg e ip m =
     Blocks (m1\<lparr>failedAttempts := (failedAttempts m1)(ip \<mapsto> n),
               bannedIPs := (bannedIPs m1)(ip \<mapsto> nowBan e + banDuration cfg),
               mu := unlocked\<lparr>writer := True\<rparr>,
               blacklistFile := [],
               out := out m @ [LogLoginFailed ip n (MaxFailedAttempts cfg), FirewallBan ip]\<rparr>)"
proof -
  have "mu m1 = unlocked" "out m1 = out m"
    using assms(1,3) by (simp_all add: isIPBanned_keeps)
  then show ?thesis
    using assms
    by (cases "isIPBanned (nowCheck e) ip m")
      (simp add: handleFailedLogin_def Lock_unlocked isIPBanned_mu emit_def attempts_def
        banIP_def saveBlacklist_def RLock_held Let_def)
qed

lemma handleFailedLogin_ban_refused:
  assumes "mu m = unlocked" and "\<not> fst (isIPBanned (nowCheck e) ip m)"
    and "m1 = snd (isIPBanned (nowCheck e) ip m)" and "n = int64 (attempts m1 ip + 1)"
    and "MaxFailedAttempts cfg \<le> n" and "\<not> banOk e"
  shows "handleFailedLogin cfg e ip m =
     Returns ()
       (m1\<lparr>failedAttempts := (failedAttempts m1)(ip \<mapsto> n),
            bannedIPs := (bannedIPs m1)(ip \<mapsto> nowBan e + banDuration cfg),
            out := out m @ [LogLoginFailed ip n (MaxFailedAttempts cfg), FirewallBan ip, LogBanFailed ip] @
              (if LoginFailedEnabled cfg
               then [TelegramSend (LoginFailedMsg ip n (MaxFailedAttempts cfg)) (sendFailedOk e)]
               else [])\<rparr>)"
proof -
  have "mu m1 = unlocked" "out m1 = out m"
    using assms(1,3) by (simp_all add: isIPBanned_keeps)
  then show ?thesis
    using assms
    by (cases "isIPBanned (nowCheck e) ip m")
      (simp add: handleFailedLogin_def Lock_unlocked isIPBanned_mu emit_def Unlock_Lock attempts_def
        banIP_def NotifyLoginFailed_def SendMessage_def Let_def)
qed

lemma handleFailedLogin_ban_unsaved:
  assumes "mu m = unlocked" and "\<not> fst (isIPBanned (nowCheck e) ip m)"
    and "m1 = snd (isIPBanned (nowCheck e) ip m)" and "n = int64 (attempts m1 ip + 1)"
    and "MaxFailedAttempts cfg \<le> n" and "banOk e" and "\<not> openOk e"
  shows "handleFailedLogin cfg e ip m =
     Returns ()
       (m1\<lparr>failedAttempts := (failedAttempts m1)(ip \<mapsto> n),
            bannedIPs := (bannedIPs m1)(ip \<mapsto> nowBan e + banDuration cfg),
            out := out m @ [LogLoginFailed ip n (MaxFailedAttempts cfg), FirewallBan ip,
                             LogBanned ip (BanDurationHours cfg) (nowBan e + banDuration cfg)] @
              (if IPBannedEnabled cfg
               then [TelegramSend (IPBannedMsg ip (banDuration cfg) (nowBan e + banDuration cfg)) (sendBannedOk e)]
               else []) @
              (if LoginFailedEnabled cfg
               then [TelegramSend (LoginFailedMsg ip n (MaxFailedAttempts cfg)) (sendFailedOk e)]
               else [])\<rparr>)"
proof -
  have "mu m1 = unlocked" "out m1 = out m"
    using assms(1,3) by (simp_all add: isIPBanned_keeps)
  then show ?thesis
    using assms
    by (cases "isIPBanned (nowCheck e) ip m")
      (simp add: handleFailedLogin_def Lock_unlocked isIPBanned_mu emit_def Unlock_Lock attempts_def
        banIP_def saveBlacklist_def NotifyLoginFailed_def NotifyIPBanned_def SendMessage_def Let_def)
qed

lemma isIPBanned_absent: "bannedIPs m ip = None \<Longrightarrow> isIPBanned now ip m = (False, m)"
  by (simp add: isIPBanned_def)

lemma emit_emit: "emit bs (emit as m) = emit (as @ bs) m"
  by (simp add: emit_def)

lemma failures_below_threshold:
  assumes "mu m = unlocked" and "bannedIPs m ip = None" and "0 \<le> attempts m ip"
    and "attempts m ip + int (length es) < MaxFailedAttempts cfg"
    and "MaxFailedAttempts cfg \<le> 2 ^ 63"
  shows "attempts (exec cfg (map (FailedLogin ip) es) m) ip = attempts m ip + int (length es)
       \<and> bannedIPs (exec cfg (map (FailedLogin ip) es) m) ip = None
       \<and> mu (exec cfg (map (FailedLogin ip) es) m) = unlocked"
  using assms
proof (induction es arbitrary: m)
  case Nil
  then show ?case by simp
next
  case (Cons e es)
  let ?n = "attempts m ip + 1"
  have n: "int64 ?n = ?n"
    using Cons.prems by (intro int64_id) simp_all
  have nb: "\<not> fst (isIPBanned (nowCheck e) ip m)" "snd (isIPBanned (nowCheck e) ip m) = m"
    using Cons.prems(2) by (simp_all add: isIPBanned_absent)
  have lt: "int64 ?n < MaxFailedAttempts cfg"
    using Cons.prems n by simp
  note h = handleFailedLogin_counts [OF Cons.prems(1) nb(1) refl refl, of cfg, unfolded nb(2), OF lt]
  let ?m' = "apply_op cfg (FailedLogin ip e) m"
  have s: "mu ?m' = unlocked" "bannedIPs ?m' ip = None" "attempts ?m' ip = ?n"
    using Cons.prems(1,2) n by (simp_all add: h attempts_def)
  have "attempts ?m' ip + int (length es) < MaxFailedAttempts cfg" "0 \<le> attempts ?m' ip"
    using Cons.prems s(3) by simp_all
  from Cons.IH [OF s(1) s(2) this(2) this(1) Cons.prems(5)] s(3)
  show ?case by simp
qed

lemma banned_attempts_rejected:
  assumes "mu m = unlocked" and "bannedIPs m ip = Some t" and "\<forall>e \<in> set es. nowCheck e < t"
  shows "exec cfg (map (FailedLogin ip) es) m = emit (replicate (length es) (LogBannedAttempt ip)) m"
  using assms
proof (induction es arbitrary: m)
  case Nil
  then show ?case by (simp add: emit_def)
next
  case (Cons e es)
  have "nowCheck e < t"
    using Cons.prems(3) by simp
  note h = handleFailedLogin_rejects [OF Cons.prems(1,2) this, of cfg]
  have "exec cfg (map (FailedLogin ip) es) (emit [LogBannedAttempt ip] m)
      = emit (replicate (length es) (LogBannedAttempt ip)) (emit [LogBannedAttempt ip] m)"
    using Cons.prems by (intro Cons.IH) (simp_all add: emit_def)
  then show ?case
    by (simp add: h emit_emit)
qed

text \<open>
  Once a handler has kept the write lock, every later call that asks for the lock waits:
  no failure is counted or rejected, no ban is made and none is lifted.
\<close>

lemma held_step:
  assumes "writer (mu m)" and "takesLock x"
  shows "apply_op cfg x m = m\<lparr>mu := queued (mu m)\<rparr>"
  using assms by (cases x) (simp_all add: handleFailedLogin_def cleanupBannedIPs_def Lock_held)

lemma held_exec:
  assumes "writer (mu m)" and "\<forall>x \<in> set ops. takesLock x"
  shows "writer (mu (exec cfg ops m)) \<and> failedAttempts (exec cfg ops m) = failedAttempts m
       \<and> bannedIPs (exec cfg ops m) = bannedIPs m \<and> blacklistFile (exec cfg ops m) = blacklistFile m
       \<and> out (exec cfg ops m) = out m"
  using assms
proof (induction ops arbitrary: m)
  case Nil
  then show ?case by simp
next
  case (Cons x xs)
  have s: "apply_op cfg x m = m\<lparr>mu := queued (mu m)\<rparr>"
    using Cons.prems by (intro held_step) simp_all
  have "writer (mu (m\<lparr>mu := queued (mu m)\<rparr>))"
    using Cons.prems(1) by (simp add: queued_def)
  from Cons.IH [OF this] Cons.prems(2)
  show ?case
    by (simp add: s)
qed

subsection \<open>Example runs\<close>

lemma twoFailures_state:
  "mu twoFailures = unlocked" "bannedIPs twoFailures ''10.0.0.1'' = None"
  "attempts twoFailures ''10.0.0.1'' = 2" "blacklistFile twoFailures = []"
  "out twoFailures =
     [LogLoginFailed ''10.0.0.1'' 1 3, TelegramSend (LoginFailedMsg ''10.0.0.1'' 1 3) True,
      LogLoginFailed ''10.0.0.1'' 2 3, TelegramSend (LoginFailedMsg ''10.0.0.1'' 2 3) True]"
  by (simp_all add: twoFailures_def handleFailedLogin_def isIPBanned_def Lock_def Unlock_def
      unlocked_def NewMonitor_def emit_def attempts_def int64_def cfg3_def calm_def
      NotifyLoginFailed_def SendMessage_def)

lemma twoFailures_next:
  "\<not> fst (isIPBanned now ''10.0.0.1'' twoFailures)"
  "snd (isIPBanned now ''10.0.0.1'' twoFailures) = twoFailures"
  "int64 (attempts twoFailures ''10.0.0.1'' + 1) = 3"
  by (simp_all add: isIPBanned_absent twoFailures_state int64_def)

lemma cfg3_values:
  "MaxFailedAttempts cfg3 = 3" "BanDurationHours cfg3 = 24" "banDuration cfg3 = 24 * Hour"
  "LoginFailedEnabled cfg3" "IPBannedEnabled cfg3" "LoginSuccessEnabled cfg3"
  by (simp_all add: banDuration_def cfg3_def Hour_def int64_def)

lemma env_values:
  "nowCheck (calm t) = t" "nowBan (calm t) = t" "banOk (calm t)" "openOk (calm t)"
  "sendFailedOk (calm t)" "sendBannedOk (calm t)"
  "nowCheck (refusing t) = t" "nowBan (refusing t) = t" "\<not> banOk (refusing t)"
  "sendFailedOk (refusing t)"
  "nowCheck (unopened t) = t" "nowBan (unopened t) = t" "banOk (unopened t)" "\<not> openOk (unopened t)"
  "sendFailedOk (unopened t)" "sendBannedOk (unopened t)"
  by (simp_all add: calm_def refusing_def unopened_def)

subsection \<open>Counting up to the ban\<close>

text \<open>
  C1. Threshold 3, no failure recorded and no ban. The first two failures of
  \<open>10.0.0.1\<close> bring its count to 2 and leave it unbanned. The third brings the count to
  3, creates the Ban Record and has the firewall block the address; then
  \<open>saveBlacklist\<close> empties the blacklist file and asks for the read lock under the
  handler's own write lock, so the third call never returns: the file stays empty, and
  neither the ban notification nor the third failure notification is sent. A fourth
  failure is not rejected as the attempt of a banned address: its handler waits for
  the mutex without reaching \<open>isIPBanned\<close>, and leaves counts, bans, file and
  observations as it found them, one more writer waiting for the mutex.
  \<open>handleFailedLogin_ban_blocks\<close> shows the same for every ban that the firewall accepts
  when the blacklist file opens.
\<close>

theorem third_failure_never_returns:
  "attempts twoFailures ''10.0.0.1'' = 2
   \<and> bannedIPs twoFailures ''10.0.0.1'' = None
   \<and> \<not> returned (handleFailedLogin cfg3 (calm 3) ''10.0.0.1'' twoFailures)
   \<and> attempts thirdFailure ''10.0.0.1'' = 3
   \<and> bannedIPs thirdFailure ''10.0.0.1'' = Some (3 + 24 * Hour)
   \<and> blacklistFile thirdFailure = []
   \<and> out thirdFailure =
       [LogLoginFailed ''10.0.0.1'' 1 3, TelegramSend (LoginFailedMsg ''10.0.0.1'' 1 3) True,
        LogLoginFailed ''10.0.0.1'' 2 3, TelegramSend (LoginFailedMsg ''10.0.0.1'' 2 3) True,
        LogLoginFailed ''10.0.0.1'' 3 3, FirewallBan ''10.0.0.1'']
   \<and> handleFailedLogin cfg3 (calm 4) ''10.0.0.1'' thirdFailure
       = Blocks (thirdFailure\<lparr>mu := queued (mu thirdFailure)\<rparr>)"
proof -
  have "MaxFailedAttempts cfg3 \<le> 3" "banOk (calm 3)" "openOk (calm 3)"
    by (simp_all add: cfg3_values env_values)
  note h = handleFailedLogin_ban_blocks [OF twoFailures_state(1) twoFailures_next(1) refl refl,
      unfolded twoFailures_next, OF this]
  have three: "attempts thirdFailure ''10.0.0.1'' = 3"
    "bannedIPs thirdFailure ''10.0.0.1'' = Some (3 + 24 * Hour)"
    "blacklistFile thirdFailure = []" "writer (mu thirdFailure)"
    "out thirdFailure = out twoFailures @ [LogLoginFailed ''10.0.0.1'' 3 3, FirewallBan ''10.0.0.1'']"
    by (simp_all add: thirdFailure_def h attempts_def cfg3_values env_values unlocked_def)
  have "\<not> returned (handleFailedLogin cfg3 (calm 3) ''10.0.0.1'' twoFailures)"
    by (simp add: h)
  then show ?thesis
    using handleFailedLogin_waits [of thirdFailure cfg3 "calm 4" "''10.0.0.1''"]
    by (simp add: twoFailures_state three)
qed

subsection \<open>The ban transition\<close>

text \<open>
  C3, as claimed, fails when the firewall refuses the rule: the third failure of
  \<open>10.0.0.1\<close> reaches the threshold, the Ban Record is created and the firewall is
  called, but the handler returns with the blacklist file still empty and without a ban
  notification.
\<close>

theorem ban_not_persisted_when_firewall_refuses:
  "bannedIPs twoFailures ''10.0.0.1'' = None
   \<and> returned (handleFailedLogin cfg3 (refusing 3) ''10.0.0.1'' twoFailures)
   \<and> bannedIPs (after (handleFailedLogin cfg3 (refusing 3) ''10.0.0.1'' twoFailures)) ''10.0.0.1''
       = Some (3 + 24 * Hour)
   \<and> blacklistFile (after (handleFailedLogin cfg3 (refusing 3) ''10.0.0.1'' twoFailures)) = []
   \<and> out (after (handleFailedLogin cfg3 (refusing 3) ''10.0.0.1'' twoFailures)) =
       out twoFailures @
       [LogLoginFailed ''10.0.0.1'' 3 3, FirewallBan ''10.0.0.1'', LogBanFailed ''10.0.0.1'',
        TelegramSend (LoginFailedMsg ''10.0.0.1'' 3 3) True]"
proof -
  have "MaxFailedAttempts cfg3 \<le> 3" "\<not> banOk (refusing 3)"
    by (simp_all add: cfg3_values refusing_def calm_def)
  note h = handleFailedLogin_ban_refused [OF twoFailures_state(1) twoFailures_next(1) refl refl,
      unfolded twoFailures_next, OF this]
  show ?thesis
    by (simp add: h twoFailures_state cfg3_values) (simp add: refusing_def calm_def)
qed

text \<open>
  C3, amended. On every ban transition (a failure of an address that is not banned, whose
  new count reaches the threshold, handled with the mutex free) the handler creates the
  Ban Record with expiry \<open>now + banDuration\<close> and then calls the firewall's block. When the
  block fails it logs that and returns: the blacklist file is not written and no ban
  notification is sent. When the block succeeds and the blacklist file cannot be opened,
  the handler returns after logging the ban with its duration and expiry and, if ban
  notifications are enabled, sending one ban notification that carries the duration and
  the expiry. (What happens when the file opens is the subject of C1.)
\<close>

theorem ban_transition:
  assumes "mu m = unlocked"
    and "\<not> fst (isIPBanned (nowCheck e) ip m)"
    and "n = int64 (attempts (snd (isIPBanned (nowCheck e) ip m)) ip + 1)"
    and "MaxFailedAttempts cfg \<le> n"
    and "r = handleFailedLogin cfg e ip m"
    and "expiry = nowBan e + banDuration cfg"
  shows "bannedIPs (after r) ip = Some expiry
       \<and> take 2 (drop (length (out m)) (out (after r)))
           = [LogLoginFailed ip n (MaxFailedAttempts cfg), FirewallBan ip]
       \<and> (\<not> banOk e \<longrightarrow>
            returned r \<and> blacklistFile (after r) = blacklistFile m
          \<and> out (after r) =
              out m @ [LogLoginFailed ip n (MaxFailedAttempts cfg), FirewallBan ip, LogBanFailed ip] @
              (if LoginFailedEnabled cfg
               then [TelegramSend (LoginFailedMsg ip n (MaxFailedAttempts cfg)) (sendFailedOk e)]
               else []))
       \<and> (banOk e \<and> \<not> openOk e \<longrightarrow>
            returned r \<and> blacklistFile (after r) = blacklistFile m
          \<and> out (after r) =
              out m @ [LogLoginFailed ip n (MaxFailedAttempts cfg), FirewallBan ip,
                       LogBanned ip (BanDurationHours cfg) expiry] @
              (if IPBannedEnabled cfg
               then [TelegramSend (IPBannedMsg ip (banDuration cfg) expiry) (sendBannedOk e)]
               else []) @
              (if LoginFailedEnabled cfg
               then [TelegramSend (LoginFailedMsg ip n (MaxFailedAttempts cfg)) (sendFailedOk e)]
               else []))"
proof -
  let ?m1 = "snd (isIPBanned (nowCheck e) ip m)"
  have f: "blacklistFile ?m1 = blacklistFile m"
    by (simp add: isIPBanned_keeps)
  consider (refused) "\<not> banOk e" | (unsaved) "banOk e" "\<not> openOk e" | (blocks) "banOk e" "openOk e"
    by blast
  then show ?thesis
  proof cases
    case refused
    show ?thesis
      using refused assms(5,6) f
      by (simp add: handleFailedLogin_ban_refused [OF assms(1,2) refl assms(3,4) refused])
  next
    case unsaved
    show ?thesis
      using unsaved assms(5,6) f
      by (simp add: handleFailedLogin_ban_unsaved [OF assms(1,2) refl assms(3,4) unsaved])
  next
    case blocks
    show ?thesis
      using blocks assms(5,6)
      by (simp add: handleFailedLogin_ban_blocks [OF assms(1,2) refl assms(3,4) blocks])
  qed
qed

theorem ban_transition_witness:
  "mu twoFailures = unlocked
   \<and> \<not> fst (isIPBanned 3 ''10.0.0.1'' twoFailures)
   \<and> MaxFailedAttempts cfg3 \<le> int64 (attempts (snd (isIPBanned 3 ''10.0.0.1'' twoFailures)) ''10.0.0.1'' + 1)
   \<and> \<not> banOk (refusing 3) \<and> banOk (unopened 3) \<and> \<not> openOk (unopened 3)
   \<and> bannedIPs (after (handleFailedLogin cfg3 (refusing 3) ''10.0.0.1'' twoFailures)) ''10.0.0.1''
       = Some (3 + 24 * Hour)
   \<and> blacklistFile (after (handleFailedLogin cfg3 (refusing 3) ''10.0.0.1'' twoFailures)) = []
   \<and> returned (handleFailedLogin cfg3 (unopened 3) ''10.0.0.1'' twoFailures)
   \<and> out (after (handleFailedLogin cfg3 (unopened 3) ''10.0.0.1'' twoFailures)) =
       out twoFailures @
       [LogLoginFailed ''10.0.0.1'' 3 3, FirewallBan ''10.0.0.1'',
        LogBanned ''10.0.0.1'' 24 (3 + 24 * Hour),
        TelegramSend (IPBannedMsg ''10.0.0.1'' (24 * Hour) (3 + 24 * Hour)) True,
        TelegramSend (LoginFailedMsg ''10.0.0.1'' 3 3) True]"
proof -
  have a: "mu twoFailures = unlocked"
    and b: "\<not> fst (isIPBanned (nowCheck (refusing 3)) ''10.0.0.1'' twoFailures)"
    and b': "\<not> fst (isIPBanned (nowCheck (unopened 3)) ''10.0.0.1'' twoFailures)"
    and c: "MaxFailedAttempts cfg3 \<le> 3"
    by (simp_all add: twoFailures_state twoFailures_next cfg3_values)
  have n: "3 = int64 (attempts (snd (isIPBanned (nowCheck (refusing 3)) ''10.0.0.1'' twoFailures)) ''10.0.0.1'' + 1)"
    and n': "3 = int64 (attempts (snd (isIPBanned (nowCheck (unopened 3)) ''10.0.0.1'' twoFailures)) ''10.0.0.1'' + 1)"
    by (simp_all add: twoFailures_next)
  show ?thesis
    using ban_transition [OF a b n c refl refl] ban_transition [OF a b' n' c refl refl]
    by (simp add: env_values cfg3_values twoFailures_state twoFailures_next int64_def)
qed

subsection \<open>The sweep\<close>

lemma sweep_keeps:
  "mu (sweep clock unbanOk keys m) = mu m"
  "blacklistFile (sweep clock unbanOk keys m) = blacklistFile m"
  by (induction keys arbitrary: m) (simp_all add: emit_def Let_def split: option.splits)

lemma sweep_bannedIPs:
  "bannedIPs (sweep clock unbanOk keys m) ip =
     (if ip \<in> set keys \<and> due clock m ip then None else bannedIPs m ip)"
  by (induction keys arbitrary: m) (auto simp: emit_def Let_def due_def split: option.splits)

lemma sweep_failedAttempts:
  "failedAttempts (sweep clock unbanOk keys m) ip =
     (if ip \<in> set keys \<and> due clock m ip then None else failedAttempts m ip)"
  by (induction keys arbitrary: m) (auto simp: emit_def Let_def due_def split: option.splits)

lemma sweep_out:
  "distinct keys \<Longrightarrow>
   out (sweep clock unbanOk keys m) =
     out m @ concat (map (unbanEvents unbanOk) (filter (due clock m) keys))"
proof (induction keys arbitrary: m)
  case Nil
  then show ?case by simp
next
  case (Cons k ks)
  let ?m' = "case bannedIPs m k of None \<Rightarrow> m
        | Some banTime \<Rightarrow>
            if banTime < clock k then
              (let m1 = emit [FirewallUnban k,
                              if unbanOk k then LogUnbanned k else LogUnbanFailed k] m
               in m1\<lparr>failedAttempts := (failedAttempts m1)(k := None),
                      bannedIPs := (bannedIPs m1)(k := None)\<rparr>)
            else m"
  have same: "filter (due clock ?m') ks = filter (due clock m) ks"
    using Cons.prems
    by (intro filter_cong) (auto simp: due_def emit_def Let_def split: option.splits)
  have o: "out ?m' = out m @ (if due clock m k then unbanEvents unbanOk k else [])"
    by (simp add: due_def emit_def Let_def unbanEvents_def split: option.splits)
  have "out (sweep clock unbanOk ks ?m') =
          out ?m' @ concat (map (unbanEvents unbanOk) (filter (due clock ?m') ks))"
    using Cons.prems by (intro Cons.IH) simp
  then show ?case
    by (simp add: same o)
qed

lemma count_unbans:
  "distinct keys \<Longrightarrow>
   count_list (concat (map (unbanEvents unbanOk) (filter P keys))) (FirewallUnban ip) =
     (if ip \<in> set keys \<and> P ip then 1 else 0)"
  by (induction keys) (auto simp: unbanEvents_def)

lemma fiveBans_state:
  "mu fiveBans = unlocked" "out fiveBans = []"
  "dom (bannedIPs fiveBans) = {''10.0.0.1'', ''10.0.0.2'', ''10.0.0.3'', ''10.0.0.4'', ''10.0.0.5''}"
  by (auto simp: fiveBans_def NewMonitor_def)

text \<open>
  A tick of the sweeper that finds the mutex free visits every banned address once. For
  exactly the addresses whose expiry lies before the clock at their visit it calls the
  firewall's unblock, once, and removes the Ban Record and the Attempt Record; it leaves
  the records of every other address as they were. Whether an unblock succeeds only
  decides which of the two log entries follows the call.
\<close>

lemma sweeper_tick_with_mutex_free:
  assumes "mu m = unlocked" and "distinct keys" and "set keys = dom (bannedIPs m)"
    and "r = cleanupBannedIPs clock unbanOk keys m"
  shows "returned r \<and> mu (after r) = unlocked
       \<and> out (after r) = out m @ concat (map (unbanEvents unbanOk) (filter (due clock m) keys))
       \<and> (\<forall>ip. count_list (out (after r)) (FirewallUnban ip) =
                 count_list (out m) (FirewallUnban ip) + (if due clock m ip then 1 else 0))
       \<and> (\<forall>ip. due clock m ip \<longrightarrow>
                 bannedIPs (after r) ip = None \<and> failedAttempts (after r) ip = None)
       \<and> (\<forall>ip. \<not> due clock m ip \<longrightarrow>
                 bannedIPs (after r) ip = bannedIPs m ip
               \<and> failedAttempts (after r) ip = failedAttempts m ip)"
proof -
  let ?m1 = "sweep clock unbanOk keys (m\<lparr>mu := unlocked\<lparr>writer := True\<rparr>\<rparr>)"
  have r: "r = Returns () (?m1\<lparr>mu := unlocked\<rparr>)"
    using assms(1,4) by (simp add: cleanupBannedIPs_def Lock_unlocked sweep_keeps Unlock_Lock)
  have d: "due clock (m\<lparr>mu := unlocked\<lparr>writer := True\<rparr>\<rparr>) = due clock m"
    by (rule ext) (simp add: due_def)
  have k: "due clock m ip \<Longrightarrow> ip \<in> set keys" for ip
    using assms(3) by (auto simp: due_def split: option.splits)
  have o: "out (after r) = out m @ concat (map (unbanEvents unbanOk) (filter (due clock m) keys))"
    using sweep_out [OF assms(2), of clock unbanOk "m\<lparr>mu := unlocked\<lparr>writer := True\<rparr>\<rparr>"]
    by (simp add: r d)
  have c: "count_list (out (after r)) (FirewallUnban ip) =
             count_list (out m) (FirewallUnban ip) + (if due clock m ip then 1 else 0)" for ip
    using k [of ip] by (simp add: o count_unbans [OF assms(2)])
  have b: "bannedIPs (after r) ip = (if due clock m ip then None else bannedIPs m ip)"
    "failedAttempts (after r) ip = (if due clock m ip then None else failedAttempts m ip)" for ip
    using k [of ip] by (auto simp: r sweep_bannedIPs sweep_failedAttempts d)
  show ?thesis
    using o c b by (simp add: r)
qed

lemma sweeper_tick_example:
  "mu fiveBans = unlocked \<and> distinct fiveKeys \<and> set fiveKeys = dom (bannedIPs fiveBans)
   \<and> returned (cleanupBannedIPs (\<lambda>ip. 50) (\<lambda>ip. ip \<noteq> ''10.0.0.1'') fiveKeys fiveBans)
   \<and> out (after (cleanupBannedIPs (\<lambda>ip. 50) (\<lambda>ip. ip \<noteq> ''10.0.0.1'') fiveKeys fiveBans)) =
       [FirewallUnban ''10.0.0.1'', LogUnbanFailed ''10.0.0.1'',
        FirewallUnban ''10.0.0.2'', LogUnbanned ''10.0.0.2'']
   \<and> bannedIPs (after (cleanupBannedIPs (\<lambda>ip. 50) (\<lambda>ip. ip \<noteq> ''10.0.0.1'') fiveKeys fiveBans)) ''10.0.0.1'' = None
   \<and> failedAttempts (after (cleanupBannedIPs (\<lambda>ip. 50) (\<lambda>ip. ip \<noteq> ''10.0.0.1'') fiveKeys fiveBans)) ''10.0.0.2'' = None
   \<and> bannedIPs (after (cleanupBannedIPs (\<lambda>ip. 50) (\<lambda>ip. ip \<noteq> ''10.0.0.1'') fiveKeys fiveBans)) ''10.0.0.3'' = Some 100
   \<and> failedAttempts (after (cleanupBannedIPs (\<lambda>ip. 50) (\<lambda>ip. ip \<noteq> ''10.0.0.1'') fiveKeys fiveBans)) ''10.0.0.5'' = Some 3"
proof -
  have a: "mu fiveBans = unlocked" and b: "distinct fiveKeys"
    and c: "set fiveKeys = dom (bannedIPs fiveBans)"
    by (auto simp: fiveBans_state fiveKeys_def)
  have d: "due (\<lambda>ip. 50) fiveBans ''10.0.0.1''" "due (\<lambda>ip. 50) fiveBans ''10.0.0.2''"
    "\<not> due (\<lambda>ip. 50) fiveBans ''10.0.0.3''" "\<not> due (\<lambda>ip. 50) fiveBans ''10.0.0.4''"
    "\<not> due (\<lambda>ip. 50) fiveBans ''10.0.0.5''"
    by (simp_all add: due_def fiveBans_def NewMonitor_def)
  have v: "bannedIPs fiveBans ''10.0.0.3'' = Some 100" "failedAttempts fiveBans ''10.0.0.5'' = Some 3"
    by (simp_all add: fiveBans_def NewMonitor_def)
  show ?thesis
    using sweeper_tick_with_mutex_free [OF a b c refl, of "\<lambda>ip. 50" "\<lambda>ip. ip \<noteq> ''10.0.0.1''"] a b c d v
    by (simp add: fiveBans_state fiveKeys_def unbanEvents_def)
qed

lemma thirdFailure_state:
  "writer (mu thirdFailure)" "bannedIPs thirdFailure ''10.0.0.1'' = Some (3 + 24 * Hour)"
  "attempts thirdFailure ''10.0.0.1'' = 3"
proof -
  have "MaxFailedAttempts cfg3 \<le> 3" "banOk (calm 3)" "openOk (calm 3)"
    by (simp_all add: cfg3_values env_values)
  note h = handleFailedLogin_ban_blocks [OF twoFailures_state(1) twoFailures_next(1) refl refl,
      unfolded twoFailures_next, OF this]
  show "writer (mu thirdFailure)" "bannedIPs thirdFailure ''10.0.0.1'' = Some (3 + 24 * Hour)"
    "attempts thirdFailure ''10.0.0.1'' = 3"
    by (simp_all add: thirdFailure_def h attempts_def cfg3_values env_values unlocked_def)
qed

lemma cleanupBannedIPs_waits:
  "writer (mu m) \<or> 0 < readers (mu m) \<or> 0 < waiting (mu m) \<Longrightarrow>
   cleanupBannedIPs clock unbanOk keys m = Blocks (m\<lparr>mu := queued (mu m)\<rparr>)"
  by (simp add: cleanupBannedIPs_def Lock_held)

text \<open>
  C5. The sweep does what is described at a tick that finds the mutex free
  (\<open>sweeper_tick_with_mutex_free\<close>), but not at each tick. Threshold 3, bans of 24 hours:
  the third failure of \<open>10.0.0.1\<close> at time 3 creates a Ban Record that expires at
  \<open>3 + 24h\<close>, the firewall blocks the address, and the handler keeps the write lock. At
  every tick after that, here at 25 hours, the expiry has passed, yet the sweeper waits
  for the mutex: it never calls the firewall's unblock, and the Ban Record and the
  Attempt Record stay, however many ticks follow.
\<close>

theorem tick_after_enforced_ban_waits:
  "bannedIPs thirdFailure ''10.0.0.1'' = Some (3 + 24 * Hour)
   \<and> due (\<lambda>ip. 25 * Hour) thirdFailure ''10.0.0.1''
   \<and> cleanupBannedIPs (\<lambda>ip. 25 * Hour) (\<lambda>ip. True) [''10.0.0.1''] thirdFailure
       = Blocks (thirdFailure\<lparr>mu := queued (mu thirdFailure)\<rparr>)
   \<and> bannedIPs (exec cfg3 (replicate k (SweeperTick (\<lambda>ip. 25 * Hour) (\<lambda>ip. True) [''10.0.0.1''])) thirdFailure)
        ''10.0.0.1'' = Some (3 + 24 * Hour)
   \<and> attempts (exec cfg3 (replicate k (SweeperTick (\<lambda>ip. 25 * Hour) (\<lambda>ip. True) [''10.0.0.1''])) thirdFailure)
        ''10.0.0.1'' = 3
   \<and> out (exec cfg3 (replicate k (SweeperTick (\<lambda>ip. 25 * Hour) (\<lambda>ip. True) [''10.0.0.1''])) thirdFailure)
       = out thirdFailure"
proof -
  let ?tick = "SweeperTick (\<lambda>ip. 25 * Hour) (\<lambda>ip. True) [''10.0.0.1'']"
  have d: "due (\<lambda>ip. 25 * Hour) thirdFailure ''10.0.0.1''"
    by (simp add: due_def thirdFailure_state Hour_def)
  have w: "cleanupBannedIPs (\<lambda>ip. 25 * Hour) (\<lambda>ip. True) [''10.0.0.1''] thirdFailure
       = Blocks (thirdFailure\<lparr>mu := queued (mu thirdFailure)\<rparr>)"
    using thirdFailure_state(1) by (intro cleanupBannedIPs_waits) simp
  have l: "\<forall>x \<in> set (replicate k ?tick). takesLock x"
    by simp
  note e = held_exec [OF thirdFailure_state(1) l, of cfg3]
  have b: "bannedIPs (exec cfg3 (replicate k ?tick) thirdFailure) ''10.0.0.1'' = Some (3 + 24 * Hour)"
    and a: "attempts (exec cfg3 (replicate k ?tick) thirdFailure) ''10.0.0.1'' = 3"
    and o: "out (exec cfg3 (replicate k ?tick) thirdFailure) = out thirdFailure"
    using e thirdFailure_state(2,3) by (simp_all add: attempts_def)
  show ?thesis
    by (intro conjI thirdFailure_state(2) d w b a o)
qed

subsection \<open>The failure count over whole runs\<close>

lemma Lock_free: "Lock l \<noteq> None \<Longrightarrow> l = unlocked"
  by (simp add: Lock_def unlocked_def split: if_splits)

lemma handleFailedLogin_maps:
  defines "n \<equiv> \<lambda>e a m. int64 (attempts (snd (isIPBanned (nowCheck e) a m)) a + 1)"
  shows "failedAttempts (after (handleFailedLogin cfg e a m)) ip =
     (if Lock (mu m) = None \<or> fst (isIPBanned (nowCheck e) a m) then failedAttempts m ip
      else if ip = a then Some (n e a m)
      else failedAttempts m ip)"
    and "bannedIPs (after (handleFailedLogin cfg e a m)) ip =
     (if Lock (mu m) = None \<or> fst (isIPBanned (nowCheck e) a m) then bannedIPs m ip
      else if ip = a then
        (if MaxFailedAttempts cfg \<le> n e a m then Some (nowBan e + banDuration cfg) else None)
      else bannedIPs m ip)"
proof -
  let ?m1 = "snd (isIPBanned (nowCheck e) a m)"
  have other: "ip \<noteq> a \<Longrightarrow> failedAttempts ?m1 ip = failedAttempts m ip \<and> bannedIPs ?m1 ip = bannedIPs m ip"
    by (simp add: isIPBanned_def split: option.splits)
  consider (waits) "Lock (mu m) = None"
    | (banned) "mu m = unlocked" "fst (isIPBanned (nowCheck e) a m)"
    | (counts) "mu m = unlocked" "\<not> fst (isIPBanned (nowCheck e) a m)" "n e a m < MaxFailedAttempts cfg"
    | (refused) "mu m = unlocked" "\<not> fst (isIPBanned (nowCheck e) a m)" "MaxFailedAttempts cfg \<le> n e a m" "\<not> banOk e"
    | (unsaved) "mu m = unlocked" "\<not> fst (isIPBanned (nowCheck e) a m)" "MaxFailedAttempts cfg \<le> n e a m" "banOk e" "\<not> openOk e"
    | (blocks) "mu m = unlocked" "\<not> fst (isIPBanned (nowCheck e) a m)" "MaxFailedAttempts cfg \<le> n e a m" "banOk e" "openOk e"
    using Lock_free [of "mu m"] by fastforce
  then have "failedAttempts (after (handleFailedLogin cfg e a m)) ip =
     (if Lock (mu m) = None \<or> fst (isIPBanned (nowCheck e) a m) then failedAttempts m ip
      else if ip = a then Some (n e a m)
      else failedAttempts m ip)
    \<and> bannedIPs (after (handleFailedLogin cfg e a m)) ip =
     (if Lock (mu m) = None \<or> fst (isIPBanned (nowCheck e) a m) then bannedIPs m ip
      else if ip = a then
        (if MaxFailedAttempts cfg \<le> n e a m then Some (nowBan e + banDuration cfg) else None)
      else bannedIPs m ip)"
  proof cases
    case waits
    then show ?thesis by (simp add: handleFailedLogin_def)
  next
    case banned
    then obtain t where "bannedIPs m a = Some t" "nowCheck e < t"
      by (auto simp: isIPBanned_def split: option.splits if_splits)
    from handleFailedLogin_rejects [OF banned(1) this, of cfg] banned
    show ?thesis by (simp add: emit_def)
  next
    case counts
    from handleFailedLogin_counts [OF counts(1,2) refl refl, of cfg] counts other
      isIPBanned_false [OF counts(2)]
    show ?thesis by (simp add: n_def Lock_unlocked)
  next
    case refused
    from handleFailedLogin_ban_refused [OF refused(1,2) refl refl, of cfg] refused other
    show ?thesis by (simp add: n_def Lock_unlocked)
  next
    case unsaved
    from handleFailedLogin_ban_unsaved [OF unsaved(1,2) refl refl, of cfg] unsaved other
    show ?thesis by (simp add: n_def Lock_unlocked)
  next
    case blocks
    from handleFailedLogin_ban_blocks [OF blocks(1,2) refl refl, of cfg] blocks other
    show ?thesis by (simp add: n_def Lock_unlocked)
  qed
  then show "failedAttempts (after (handleFailedLogin cfg e a m)) ip =
     (if Lock (mu m) = None \<or> fst (isIPBanned (nowCheck e) a m) then failedAttempts m ip
      else if ip = a then Some (n e a m)
      else failedAttempts m ip)"
    and "bannedIPs (after (handleFailedLogin cfg e a m)) ip =
     (if Lock (mu m) = None \<or> fst (isIPBanned (nowCheck e) a m) then bannedIPs m ip
      else if ip = a then
        (if MaxFailedAttempts cfg \<le> n e a m then Some (nowBan e + banDuration cfg) else None)
      else bannedIPs m ip)"
    by simp_all
qed

lemma isIPBanned_maps:
  "failedAttempts (snd (isIPBanned now a m)) ip =
     (if ip = a \<and> (\<exists>t. bannedIPs m a = Some t \<and> t \<le> now) then None else failedAttempts m ip)"
  "bannedIPs (snd (isIPBanned now a m)) ip =
     (if ip = a \<and> (\<exists>t. bannedIPs m a = Some t \<and> t \<le> now) then None else bannedIPs m ip)"
  "fst (isIPBanned now a m) = (\<exists>t. bannedIPs m a = Some t \<and> now < t)"
  by (auto simp: isIPBanned_def split: option.splits)

lemma handleSuccessfulLogin_maps:
  "failedAttempts (handleSuccessfulLogin cfg ok a m) = failedAttempts m"
  "bannedIPs (handleSuccessfulLogin cfg ok a m) = bannedIPs m"
  by (simp_all add: handleSuccessfulLogin_def NotifyLoginSuccess_def SendMessage_def emit_def)

lemma cleanupBannedIPs_maps:
  "failedAttempts (after (cleanupBannedIPs clock unbanOk keys m)) ip =
     (if Lock (mu m) \<noteq> None \<and> ip \<in> set keys \<and> due clock m ip then None else failedAttempts m ip)"
  "bannedIPs (after (cleanupBannedIPs clock unbanOk keys m)) ip =
     (if Lock (mu m) \<noteq> None \<and> ip \<in> set keys \<and> due clock m ip then None else bannedIPs m ip)"
  by (cases "Lock (mu m)"; simp add: cleanupBannedIPs_def Let_def sweep_failedAttempts sweep_bannedIPs due_def)+

lemma loadLines_failedAttempts:
  "failedAttempts (loadLines d clock i ips m) = failedAttempts m"
  by (induction ips arbitrary: i m) simp_all

lemma counted_started: "counted cfg (started cfg opened readable clock file)"
  by (simp add: counted_def started_def loadBlacklist_def loadLines_failedAttempts NewMonitor_def Let_def)

lemma attempts_bounds:
  assumes "counted cfg m" and "0 < MaxFailedAttempts cfg"
  shows "0 \<le> attempts m ip" and "attempts m ip \<le> MaxFailedAttempts cfg"
    and "bannedIPs m ip = None \<Longrightarrow> attempts m ip < MaxFailedAttempts cfg"
  using assms by (force simp: counted_def attempts_def split: option.splits)+

lemma counted_isIPBanned: "counted cfg m \<Longrightarrow> counted cfg (snd (isIPBanned now a m))"
  by (auto simp: counted_def isIPBanned_maps)

text \<open>The new count of an address that is not banned: one more, without wrapping.\<close>

lemma next_count:
  assumes "counted cfg m" and "0 < MaxFailedAttempts cfg" and "MaxFailedAttempts cfg < 2 ^ 63"
    and "\<not> fst (isIPBanned now a m)"
  defines "m1 \<equiv> snd (isIPBanned now a m)"
  shows "int64 (attempts m1 a + 1) = attempts m1 a + 1"
    and "0 \<le> attempts m1 a" and "attempts m1 a < MaxFailedAttempts cfg"
    and "attempts m1 a = (if bannedIPs m a = None then attempts m a else 0)"
proof -
  have c: "counted cfg m1" and b: "bannedIPs m1 a = None"
    using assms(1,4) by (simp_all add: m1_def counted_isIPBanned isIPBanned_false)
  show lo: "0 \<le> attempts m1 a" and hi: "attempts m1 a < MaxFailedAttempts cfg"
    using attempts_bounds [OF c assms(2)] b by simp_all
  show "int64 (attempts m1 a + 1) = attempts m1 a + 1"
    using lo hi assms(3) by (intro int64_id) simp_all
  show "attempts m1 a = (if bannedIPs m a = None then attempts m a else 0)"
    using assms(4) by (auto simp: m1_def attempts_def isIPBanned_maps)
qed

lemma counted_apply_op:
  assumes "counted cfg m" and "0 < MaxFailedAttempts cfg" and "MaxFailedAttempts cfg < 2 ^ 63"
  shows "counted cfg (apply_op cfg x m)"
proof (cases x)
  case (FailedLogin a e)
  show ?thesis
  proof (cases "Lock (mu m) = None \<or> fst (isIPBanned (nowCheck e) a m)")
    case True
    then show ?thesis
      using assms(1) by (simp add: FailedLogin counted_def handleFailedLogin_maps)
  next
    case False
    then have nb: "\<not> fst (isIPBanned (nowCheck e) a m)" and lk: "Lock (mu m) \<noteq> None"
      by simp_all
    note n = next_count(1-3) [OF assms nb]
    show ?thesis
      unfolding counted_def
    proof (intro allI impI)
      fix ip c
      assume h: "failedAttempts (apply_op cfg x m) ip = Some c"
      show "1 \<le> c \<and> c \<le> MaxFailedAttempts cfg
          \<and> (bannedIPs (apply_op cfg x m) ip = None \<longrightarrow> c < MaxFailedAttempts cfg)"
      proof (cases "ip = a")
        case True
        then show ?thesis
          using h n by (auto simp: FailedLogin handleFailedLogin_maps lk nb split: if_splits)
      next
        case False
        then show ?thesis
          using h assms(1) by (auto simp: FailedLogin handleFailedLogin_maps counted_def)
      qed
    qed
  qed
next
  case (SuccessfulLogin a ok)
  then show ?thesis
    using assms(1) by (simp add: counted_def handleSuccessfulLogin_maps)
next
  case (BanCheck a now)
  then show ?thesis
    using assms(1) by (simp add: counted_isIPBanned)
next
  case (SweeperTick clock unbanOk keys)
  then show ?thesis
    using assms(1) by (auto simp: counted_def cleanupBannedIPs_maps)
qed

lemma counted_exec:
  assumes "0 < MaxFailedAttempts cfg" and "MaxFailedAttempts cfg < 2 ^ 63"
  shows "counted cfg m \<Longrightarrow> counted cfg (exec cfg ops m)"
  by (induction ops arbitrary: m) (simp_all add: counted_apply_op [OF _ assms])

lemma discipline_from_effect:
  assumes f: "failedAttempts m' ip = (if C then v else failedAttempts m ip)"
    and up: "C \<Longrightarrow> bannedIPs m ip = None \<Longrightarrow> attempts m ip \<le> (case v of None \<Rightarrow> 0 | Some c \<Rightarrow> c)"
    and late: "\<And>t. C \<Longrightarrow> bannedIPs m ip = Some t \<Longrightarrow> \<exists>now \<in> set rs. t \<le> now"
    and fresh: "C \<Longrightarrow> bannedIPs m ip \<noteq> None \<Longrightarrow> v = None \<or> v = Some 1"
  shows "(bannedIPs m ip = None \<longrightarrow> attempts m ip \<le> attempts m' ip)
       \<and> (\<forall>t. bannedIPs m ip = Some t \<and> (\<forall>now \<in> set rs. now < t) \<longrightarrow>
              failedAttempts m' ip = failedAttempts m ip)
       \<and> (failedAttempts m' ip \<noteq> failedAttempts m ip \<and> bannedIPs m ip \<noteq> None \<longrightarrow>
            (\<exists>t now. bannedIPs m ip = Some t \<and> now \<in> set rs \<and> t \<le> now)
          \<and> (failedAttempts m' ip = None \<or> failedAttempts m' ip = Some 1))"
proof (cases C)
  case False
  then have "failedAttempts m' ip = failedAttempts m ip"
    using f by simp
  then show ?thesis
    by (simp add: attempts_def)
next
  case True
  then have g: "failedAttempts m' ip = v"
    using f by simp
  have 1: "bannedIPs m ip = None \<longrightarrow> attempts m ip \<le> attempts m' ip"
    using up [OF True] by (simp add: attempts_def g)
  have 2: "\<forall>t. bannedIPs m ip = Some t \<and> (\<forall>now \<in> set rs. now < t) \<longrightarrow>
              failedAttempts m' ip = failedAttempts m ip"
  proof (intro allI impI, elim conjE)
    fix t
    assume t: "bannedIPs m ip = Some t" and early: "\<forall>now \<in> set rs. now < t"
    from late [OF True t] obtain now where "now \<in> set rs" "t \<le> now" by auto
    with early have False by force
    then show "failedAttempts m' ip = failedAttempts m ip" ..
  qed
  have 3: "failedAttempts m' ip \<noteq> failedAttempts m ip \<and> bannedIPs m ip \<noteq> None \<longrightarrow>
            (\<exists>t now. bannedIPs m ip = Some t \<and> now \<in> set rs \<and> t \<le> now)
          \<and> (failedAttempts m' ip = None \<or> failedAttempts m' ip = Some 1)"
  proof (intro impI, elim conjE)
    assume b: "bannedIPs m ip \<noteq> None"
    then obtain t where t: "bannedIPs m ip = Some t" by auto
    from late [OF True t] obtain now where "now \<in> set rs" "t \<le> now" by auto
    then show "(\<exists>t now. bannedIPs m ip = Some t \<and> now \<in> set rs \<and> t \<le> now)
          \<and> (failedAttempts m' ip = None \<or> failedAttempts m' ip = Some 1)"
      using t fresh [OF True b] g by auto
  qed
  show ?thesis
    by (rule conjI [OF 1 conjI [OF 2 3]])
qed

lemma step_discipline:
  assumes "counted cfg m" and "0 < MaxFailedAttempts cfg" and "MaxFailedAttempts cfg < 2 ^ 63"
    and "m' = apply_op cfg x m"
  shows "(bannedIPs m ip = None \<longrightarrow> attempts m ip \<le> attempts m' ip)
       \<and> (\<forall>t. bannedIPs m ip = Some t \<and> (\<forall>now \<in> set (readings x ip). now < t) \<longrightarrow>
              failedAttempts m' ip = failedAttempts m ip)
       \<and> (failedAttempts m' ip \<noteq> failedAttempts m ip \<and> bannedIPs m ip \<noteq> None \<longrightarrow>
            (\<exists>t now. bannedIPs m ip = Some t \<and> now \<in> set (readings x ip) \<and> t \<le> now)
          \<and> (failedAttempts m' ip = None \<or> failedAttempts m' ip = Some 1))"
proof (cases x)
  case (FailedLogin a e)
  let ?C = "\<not> (Lock (mu m) = None \<or> fst (isIPBanned (nowCheck e) a m)) \<and> ip = a"
  let ?v = "Some ((if bannedIPs m ip = None then attempts m ip else 0) + 1)"
  have n: "int64 (attempts (snd (isIPBanned (nowCheck e) a m)) a + 1)
             = (if bannedIPs m a = None then attempts m a else 0) + 1"
    if "\<not> fst (isIPBanned (nowCheck e) a m)"
    using next_count(1,4) [OF assms(1-3) that] by simp
  have f: "failedAttempts m' ip = (if ?C then ?v else failedAttempts m ip)"
    using assms(4) n by (simp add: FailedLogin handleFailedLogin_maps)
  have late: "\<exists>now \<in> set (readings x ip). t \<le> now" if "?C" "bannedIPs m ip = Some t" for t
    using that by (simp add: FailedLogin isIPBanned_maps)
  show ?thesis
    by (rule discipline_from_effect [OF f _ late]) auto
next
  case (SuccessfulLogin a ok)
  then have "failedAttempts m' ip = (if False then None else failedAttempts m ip)"
    using assms(4) by (simp add: handleSuccessfulLogin_maps)
  then show ?thesis
    by (rule discipline_from_effect) simp_all
next
  case (BanCheck a now)
  let ?C = "ip = a \<and> (\<exists>t. bannedIPs m a = Some t \<and> t \<le> now)"
  have f: "failedAttempts m' ip = (if ?C then None else failedAttempts m ip)"
    using assms(4) by (simp add: BanCheck isIPBanned_maps)
  have late: "\<exists>now \<in> set (readings x ip). t \<le> now" if "?C" "bannedIPs m ip = Some t" for t
    using that by (auto simp: BanCheck)
  have up: "attempts m ip \<le> (case None of None \<Rightarrow> 0 | Some c \<Rightarrow> c)" if "?C" "bannedIPs m ip = None"
    using that by auto
  show ?thesis
    by (rule discipline_from_effect [OF f up late]) simp_all
next
  case (SweeperTick clock unbanOk keys)
  let ?C = "Lock (mu m) \<noteq> None \<and> ip \<in> set keys \<and> due clock m ip"
  have f: "failedAttempts m' ip = (if ?C then None else failedAttempts m ip)"
    using assms(4) by (simp add: SweeperTick cleanupBannedIPs_maps)
  have late: "\<exists>now \<in> set (readings x ip). t \<le> now" if "?C" "bannedIPs m ip = Some t" for t
    using that by (simp add: SweeperTick due_def)
  have up: "attempts m ip \<le> (case None of None \<Rightarrow> 0 | Some c \<Rightarrow> c)" if "?C" "bannedIPs m ip = None"
    using that by (simp add: due_def)
  show ?thesis
    by (rule discipline_from_effect [OF f up late]) simp_all
qed

lemma restored_state:
  "mu restored = unlocked" "bannedIPs restored ''10.0.0.9'' = Some (24 * Hour)"
  "failedAttempts restored ''10.0.0.9'' = None" "bannedIPs restored ''10.0.0.1'' = None"
  "attempts restored ''10.0.0.1'' = 0"
  by (simp_all add: restored_def started_def loadBlacklist_def NewMonitor_def newline_def
      MaxScanTokenSize_def dropCR_def cfg3_values attempts_def Let_def)

lemma oneLater_state:
  "bannedIPs oneLater ''10.0.0.1'' = None" "attempts oneLater ''10.0.0.1'' = 1"
  "bannedIPs oneLater ''10.0.0.9'' = Some (24 * Hour)" "failedAttempts oneLater ''10.0.0.9'' = None"
proof -
  have f: "failedAttempts oneLater ''10.0.0.1'' = Some 1"
    by (simp add: oneLater_def handleFailedLogin_maps restored_state Lock_unlocked isIPBanned_absent
        int64_def)
  then show "attempts oneLater ''10.0.0.1'' = 1"
    by (simp add: attempts_def)
  show "bannedIPs oneLater ''10.0.0.1'' = None" "bannedIPs oneLater ''10.0.0.9'' = Some (24 * Hour)"
    "failedAttempts oneLater ''10.0.0.9'' = None"
    by (simp_all add: oneLater_def handleFailedLogin_maps restored_state Lock_unlocked
        isIPBanned_absent int64_def cfg3_values)
qed

text \<open>
  C6. Take a valid threshold, a monitor started on any blacklist file, any sequence of
  failure events, success events, ban checks and sweeper ticks, and one more operation.
  For every address: if it has no Ban Record, the operation does not lower its count;
  if it has a Ban Record whose expiry lies after the clock readings the operation
  compares it with, the operation leaves its count alone; and if it has a Ban Record and
  its count changes, then the record had expired by one of those readings, and the count
  was cleared, or cleared and started again at 1 by the failure that found the ban
  expired.
\<close>

theorem failure_count_discipline:
  assumes "0 < MaxFailedAttempts cfg" and "MaxFailedAttempts cfg < 2 ^ 63"
    and "m = exec cfg ops (started cfg opened readable clock file)"
    and "m' = apply_op cfg x m"
  shows "(bannedIPs m ip = None \<longrightarrow> attempts m ip \<le> attempts m' ip)
       \<and> (\<forall>t. bannedIPs m ip = Some t \<and> (\<forall>now \<in> set (readings x ip). now < t) \<longrightarrow>
              failedAttempts m' ip = failedAttempts m ip)
       \<and> (failedAttempts m' ip \<noteq> failedAttempts m ip \<and> bannedIPs m ip \<noteq> None \<longrightarrow>
            (\<exists>t now. bannedIPs m ip = Some t \<and> now \<in> set (readings x ip) \<and> t \<le> now)
          \<and> (failedAttempts m' ip = None \<or> failedAttempts m' ip = Some 1))"
proof -
  have "counted cfg m"
    unfolding assms(3) by (intro counted_exec assms(1,2) counted_started)
  from step_discipline [OF this assms(1,2,4)] show ?thesis .
qed

theorem failure_count_discipline_witness:
  "0 < MaxFailedAttempts cfg3 \<and> MaxFailedAttempts cfg3 < 2 ^ 63
   \<and> bannedIPs oneLater ''10.0.0.1'' = None
   \<and> attempts oneLater ''10.0.0.1'' = 1
   \<and> 1 \<le> attempts (apply_op cfg3 (FailedLogin ''10.0.0.1'' (calm 5)) oneLater) ''10.0.0.1''
   \<and> bannedIPs oneLater ''10.0.0.9'' = Some (24 * Hour)
   \<and> readings (FailedLogin ''10.0.0.9'' (calm 5)) ''10.0.0.9'' = [5]
   \<and> 5 < 24 * Hour
   \<and> failedAttempts (apply_op cfg3 (FailedLogin ''10.0.0.9'' (calm 5)) oneLater) ''10.0.0.9'' = None"
proof -
  have c: "0 < MaxFailedAttempts cfg3" "MaxFailedAttempts cfg3 < 2 ^ 63"
    by (simp_all add: cfg3_values)
  have m: "oneLater = exec cfg3 [FailedLogin ''10.0.0.1'' (calm 1)]
                        (started cfg3 True None (\<lambda>i. 0) (''10.0.0.9'' @ [newline]))"
    by (simp add: oneLater_def restored_def)
  show ?thesis
    using failure_count_discipline [OF c m refl, where x = "FailedLogin ''10.0.0.1'' (calm 5)"
          and ip = "''10.0.0.1''"]
      failure_count_discipline [OF c m refl, where x = "FailedLogin ''10.0.0.9'' (calm 5)"
          and ip = "''10.0.0.9''"]
    by (simp add: oneLater_state cfg3_values env_values Hour_def)
qed

subsection \<open>A ban whose enforcement failed\<close>

lemma live_ban_step:
  assumes "bannedIPs m ip = Some t" and "\<forall>now \<in> set (readings x ip). now < t"
  shows "bannedIPs (apply_op cfg x m) ip = Some t
       \<and> failedAttempts (apply_op cfg x m) ip = failedAttempts m ip"
proof (cases x)
  case (FailedLogin a e)
  have "ip = a \<Longrightarrow> fst (isIPBanned (nowCheck e) a m)"
    using assms FailedLogin by (simp add: isIPBanned_maps(3))
  then show ?thesis
    using assms(1) by (auto simp: FailedLogin handleFailedLogin_maps)
next
  case (SuccessfulLogin a ok)
  then show ?thesis
    using assms(1) by (simp add: handleSuccessfulLogin_maps)
next
  case (BanCheck a now)
  then show ?thesis
    using assms by (auto simp: isIPBanned_maps)
next
  case (SweeperTick clock unbanOk keys)
  then have "\<not> due clock m ip"
    using assms by (simp add: due_def)
  then show ?thesis
    using assms(1) by (simp add: SweeperTick cleanupBannedIPs_maps)
qed

lemma live_ban_exec:
  assumes "bannedIPs m ip = Some t" and "\<forall>x \<in> set ops. \<forall>now \<in> set (readings x ip). now < t"
  shows "bannedIPs (exec cfg ops m) ip = Some t
       \<and> failedAttempts (exec cfg ops m) ip = failedAttempts m ip"
  using assms
proof (induction ops arbitrary: m)
  case Nil
  then show ?case by simp
next
  case (Cons x xs)
  have s: "bannedIPs (apply_op cfg x m) ip = Some t
         \<and> failedAttempts (apply_op cfg x m) ip = failedAttempts m ip"
    using Cons.prems by (intro live_ban_step) simp_all
  have "bannedIPs (exec cfg xs (apply_op cfg x m)) ip = Some t
      \<and> failedAttempts (exec cfg xs (apply_op cfg x m)) ip = failedAttempts (apply_op cfg x m) ip"
    using Cons.prems s by (intro Cons.IH) simp_all
  then show ?case
    using s by simp
qed

lemma failed_enforcement_keeps_ban:
  assumes "mu m = unlocked"
    and "\<not> fst (isIPBanned (nowCheck e) ip m)"
    and "MaxFailedAttempts cfg \<le> int64 (attempts (snd (isIPBanned (nowCheck e) ip m)) ip + 1)"
    and "\<not> banOk e \<or> \<not> openOk e"
    and "r = handleFailedLogin cfg e ip m"
    and "\<forall>x \<in> set ops. \<forall>now \<in> set (readings x ip). now < nowBan e + banDuration cfg"
    and "m' = exec cfg ops (after r)"
  shows "returned r
       \<and> bannedIPs (after r) ip = Some (nowBan e + banDuration cfg)
       \<and> bannedIPs m' ip = Some (nowBan e + banDuration cfg)
       \<and> failedAttempts m' ip = failedAttempts (after r) ip
       \<and> (mu m' = unlocked \<and> nowCheck e' < nowBan e + banDuration cfg \<longrightarrow>
            handleFailedLogin cfg e' ip m' = Returns () (emit [LogBannedAttempt ip] m'))
       \<and> (mu m' \<noteq> unlocked \<longrightarrow>
            handleFailedLogin cfg e' ip m' = Blocks (m'\<lparr>mu := queued (mu m')\<rparr>))"
proof -
  have r: "returned r \<and> bannedIPs (after r) ip = Some (nowBan e + banDuration cfg)"
  proof (cases "banOk e")
    case True
    then have "\<not> openOk e" using assms(4) by simp
    from handleFailedLogin_ban_unsaved [OF assms(1,2) refl refl assms(3) True this]
    show ?thesis
      using assms(5) by simp
  next
    case False
    from handleFailedLogin_ban_refused [OF assms(1,2) refl refl assms(3) False]
    show ?thesis
      using assms(5) by simp
  qed
  have k: "bannedIPs m' ip = Some (nowBan e + banDuration cfg)
         \<and> failedAttempts m' ip = failedAttempts (after r) ip"
    unfolding assms(7) using r assms(6) by (intro live_ban_exec) simp_all
  have j: "handleFailedLogin cfg e' ip m' = Returns () (emit [LogBannedAttempt ip] m')"
    if "mu m' = unlocked" "nowCheck e' < nowBan e + banDuration cfg"
    using that k by (intro handleFailedLogin_rejects) simp_all
  have w: "handleFailedLogin cfg e' ip m' = Blocks (m'\<lparr>mu := queued (mu m')\<rparr>)"
    if "mu m' \<noteq> unlocked"
  proof -
    have "Lock (mu m') = None"
      using that Lock_free [of "mu m'"] by blast
    then show ?thesis
      by (simp add: handleFailedLogin_def)
  qed
  show ?thesis
    using r k j w by simp
qed

lemma refusedBan_state:
  "returned (handleFailedLogin cfg3 (refusing 3) ''10.0.0.1'' twoFailures)"
  "mu refusedBan = unlocked" "bannedIPs refusedBan ''10.0.0.1'' = Some (3 + 24 * Hour)"
  "bannedIPs refusedBan ''10.0.0.2'' = None" "attempts refusedBan ''10.0.0.1'' = 3"
  "attempts refusedBan ''10.0.0.2'' = 0"
proof -
  have "MaxFailedAttempts cfg3 \<le> 3" "\<not> banOk (refusing 3)"
    by (simp_all add: cfg3_values env_values)
  note h = handleFailedLogin_ban_refused [OF twoFailures_state(1) twoFailures_next(1) refl refl,
      unfolded twoFailures_next, OF this]
  have z: "failedAttempts twoFailures ''10.0.0.2'' = None" "bannedIPs twoFailures ''10.0.0.2'' = None"
    by (simp_all add: twoFailures_def handleFailedLogin_def isIPBanned_def Lock_def Unlock_def
      unlocked_def NewMonitor_def emit_def attempts_def int64_def cfg3_def calm_def
      NotifyLoginFailed_def SendMessage_def)
  show "returned (handleFailedLogin cfg3 (refusing 3) ''10.0.0.1'' twoFailures)"
    "mu refusedBan = unlocked" "bannedIPs refusedBan ''10.0.0.1'' = Some (3 + 24 * Hour)"
    "bannedIPs refusedBan ''10.0.0.2'' = None" "attempts refusedBan ''10.0.0.1'' = 3"
    "attempts refusedBan ''10.0.0.2'' = 0"
    using z by (simp_all add: refusedBan_def h twoFailures_state attempts_def cfg3_values env_values)
qed

lemma otherTwice_state:
  "mu otherTwice = unlocked" "bannedIPs otherTwice ''10.0.0.1'' = Some (3 + 24 * Hour)"
  "bannedIPs otherTwice ''10.0.0.2'' = None" "attempts otherTwice ''10.0.0.2'' = 2"
  "attempts otherTwice ''10.0.0.1'' = 3"
proof -
  have a: "0 \<le> attempts refusedBan ''10.0.0.2''"
    "attempts refusedBan ''10.0.0.2'' + int (length [calm 4, calm 5]) < MaxFailedAttempts cfg3"
    "MaxFailedAttempts cfg3 \<le> 2 ^ 63"
    by (simp_all add: refusedBan_state cfg3_values)
  note f = failures_below_threshold [OF refusedBan_state(2,4) a]
  have r: "\<forall>x \<in> set [FailedLogin ''10.0.0.2'' (calm 4), FailedLogin ''10.0.0.2'' (calm 5)].
             \<forall>now \<in> set (readings x ''10.0.0.1''). now < 3 + 24 * Hour"
    by simp
  note l = live_ban_exec [OF refusedBan_state(3) r, of cfg3]
  show "mu otherTwice = unlocked" "bannedIPs otherTwice ''10.0.0.1'' = Some (3 + 24 * Hour)"
    "bannedIPs otherTwice ''10.0.0.2'' = None" "attempts otherTwice ''10.0.0.2'' = 2"
    "attempts otherTwice ''10.0.0.1'' = 3"
    using f l refusedBan_state(5,6) by (simp_all add: otherTwice_def attempts_def)
qed

text \<open>
  C4. A Ban Record whose enforcement failed is kept, and \<open>failed_enforcement_keeps_ban\<close>
  shows that it outlives every operation handled before its expiry and that a later
  attempt of the address is rejected if it finds the mutex free. But a later attempt need
  not find it free. Threshold 3: the third failure of \<open>10.0.0.1\<close> meets a firewall that
  refuses the rule; the handler returns and the Ban Record stays. Then \<open>10.0.0.2\<close> fails
  three times and its ban is enforced, so its third handler keeps the write lock.
  The next failed attempt of \<open>10.0.0.1\<close>, long before its expiry, is not rejected: its
  handler waits for the mutex and never reaches \<open>isIPBanned\<close>, and so does every later
  one; none adds the observation of a banned address trying to log in.
\<close>

theorem later_attempt_never_rejected:
  "returned (handleFailedLogin cfg3 (refusing 3) ''10.0.0.1'' twoFailures)
   \<and> bannedIPs refusedBan ''10.0.0.1'' = Some (3 + 24 * Hour)
   \<and> \<not> returned (handleFailedLogin cfg3 (bothKeys 6) ''10.0.0.2'' otherTwice)
   \<and> bannedIPs otherBanned ''10.0.0.1'' = Some (3 + 24 * Hour)
   \<and> attempts otherBanned ''10.0.0.1'' = 3
   \<and> nowCheck (calm 7) < 3 + 24 * Hour
   \<and> handleFailedLogin cfg3 (calm 7) ''10.0.0.1'' otherBanned
       = Blocks (otherBanned\<lparr>mu := queued (mu otherBanned)\<rparr>)
   \<and> out (exec cfg3 (map (FailedLogin ''10.0.0.1'') later) otherBanned) = out otherBanned"
proof -
  have nb: "\<not> fst (isIPBanned (nowCheck (bothKeys 6)) ''10.0.0.2'' otherTwice)"
    "snd (isIPBanned (nowCheck (bothKeys 6)) ''10.0.0.2'' otherTwice) = otherTwice"
    by (simp_all add: isIPBanned_absent otherTwice_state)
  have "MaxFailedAttempts cfg3 \<le> int64 (attempts otherTwice ''10.0.0.2'' + 1)"
    "banOk (bothKeys 6)" "openOk (bothKeys 6)"
    by (simp_all add: otherTwice_state cfg3_values bothKeys_def env_values int64_def)
  note h = handleFailedLogin_ban_blocks [OF otherTwice_state(1) nb(1) refl refl,
      unfolded nb(2), OF this]
  have s: "bannedIPs otherBanned ''10.0.0.1'' = Some (3 + 24 * Hour)"
    "attempts otherBanned ''10.0.0.1'' = 3" "writer (mu otherBanned)"
    using otherTwice_state(2,5) by (simp_all add: otherBanned_def h attempts_def unlocked_def)
  have l: "\<forall>x \<in> set (map (FailedLogin ''10.0.0.1'') later). takesLock x"
    by simp
  have o: "out (exec cfg3 (map (FailedLogin ''10.0.0.1'') later) otherBanned) = out otherBanned"
    using held_exec [OF s(3) l] by simp
  have n: "\<not> returned (handleFailedLogin cfg3 (bothKeys 6) ''10.0.0.2'' otherTwice)"
    by (simp add: h)
  have t: "nowCheck (calm 7) < 3 + 24 * Hour"
    by (simp add: env_values Hour_def)
  have w: "handleFailedLogin cfg3 (calm 7) ''10.0.0.1'' otherBanned
       = Blocks (otherBanned\<lparr>mu := queued (mu otherBanned)\<rparr>)"
    using s(3) by (intro handleFailedLogin_waits) simp
  show ?thesis
    by (intro conjI refusedBan_state(1) refusedBan_state(3) n s(1) s(2) t w o)
qed


subsection \<open>Addresses captured from the log\<close>

text \<open>
  The address that the expression captures consists of digits and dots and ends in a
  digit; captured from a line below the scanner's limit, it can be written to the
  blacklist file and read back.
\<close>

lemma digitsDot_Some:
  assumes "digitsDot s = Some (a, r)"
  shows "s = a @ r" and "a \<noteq> []" and "set a \<subseteq> {c. isDigit c} \<union> {CHR ''.''}"
proof -
  from assms obtain c where c: "dropWhile isDigit s = c # r" "c = CHR ''.''"
    and a: "a = takeWhile isDigit s @ [c]"
    by (auto simp: digitsDot_def Let_def split: if_splits list.splits)
  have "s = takeWhile isDigit s @ dropWhile isDigit s" by simp
  then show "s = a @ r" using a c(1) by simp
  show "a \<noteq> []" using a by simp
  show "set a \<subseteq> {c. isDigit c} \<union> {CHR ''.''}"
    using a c(2) by (auto dest: set_takeWhileD)
qed

lemma matchIPv4_Some:
  assumes "matchIPv4 s = Some ip"
  shows "ip \<noteq> []" and "set ip \<subseteq> {c. isDigit c} \<union> {CHR ''.''}" and "isDigit (last ip)"
    and "length ip \<le> length s"
proof -
  from assms obtain a r1 b r2 c r3 where
    a: "digitsDot s = Some (a, r1)" and b: "digitsDot r1 = Some (b, r2)"
    and c: "digitsDot r2 = Some (c, r3)"
    and d: "takeWhile isDigit r3 \<noteq> []" and ip: "ip = a @ b @ c @ takeWhile isDigit r3"
    by (auto simp: matchIPv4_def Let_def split: option.splits if_splits)
  note A = digitsDot_Some [OF a] and B = digitsDot_Some [OF b] and C = digitsDot_Some [OF c]
  show "ip \<noteq> []" using ip d by simp
  show "set ip \<subseteq> {c. isDigit c} \<union> {CHR ''.''}"
    using A(3) B(3) C(3) by (auto simp: ip dest: set_takeWhileD)
  have "last (takeWhile isDigit r3) \<in> set (takeWhile isDigit r3)"
    using d by simp
  then have "isDigit (last (takeWhile isDigit r3))"
    by (rule set_takeWhileD [THEN conjunct2])
  then show "isDigit (last ip)"
    using d by (simp add: ip)
  have "length (takeWhile isDigit r3) \<le> length r3"
    by (rule length_takeWhile_le)
  then show "length ip \<le> length s"
    by (simp add: ip A(1) B(1) C(1))
qed

lemma findSubmatch_Some:
  "findSubmatch l = Some ip \<Longrightarrow>
     ip \<noteq> [] \<and> set ip \<subseteq> {c. isDigit c} \<union> {CHR ''.''} \<and> isDigit (last ip) \<and> length ip \<le> length l"
proof (induction l)
  case Nil
  then show ?case by simp
next
  case (Cons c cs)
  show ?case
  proof (cases "take 5 (c # cs) = ''from '' \<and> matchIPv4 (drop 5 (c # cs)) = Some ip")
    case True
    then show ?thesis
      using matchIPv4_Some [of "drop 5 (c # cs)" ip] by auto
  next
    case False
    then have "findSubmatch cs = Some ip"
      using Cons.prems by (auto split: option.splits if_splits)
    then show ?thesis
      using Cons.IH by auto
  qed
qed

lemma captured_lineSafe:
  assumes "findSubmatch l = Some ip" and "length l < MaxScanTokenSize"
  shows "lineSafe ip"
proof -
  note f = findSubmatch_Some [OF assms(1)]
  have "\<not> isDigit newline" "newline \<noteq> CHR ''.''" "\<not> isDigit (CHR 0x0D)"
    by (simp_all add: isDigit_def newline_def)
  then show ?thesis
    using f assms(2) by (auto simp: lineSafe_def)
qed

subsection \<open>Saving and loading the blacklist\<close>

lemma scanLines_line:
  "newline \<notin> set ip \<Longrightarrow> length cur + length ip < MaxScanTokenSize \<Longrightarrow>
   scanLines cur (ip @ newline # rest) =
     (dropCR (cur @ ip) # fst (scanLines [] rest), snd (scanLines [] rest))"
  by (induction ip arbitrary: cur) auto

lemma dropCR_safe: "lineSafe ip \<Longrightarrow> dropCR ip = ip"
  by (simp add: lineSafe_def dropCR_def)

lemma scanLines_saved:
  "\<forall>ip \<in> set keys. lineSafe ip \<Longrightarrow>
   scanLines [] (concat (map (\<lambda>ip. ip @ [newline]) keys)) = (keys, False)"
proof (induction keys)
  case Nil
  then show ?case by simp
next
  case (Cons k ks)
  then have k: "lineSafe k" and ks: "scanLines [] (concat (map (\<lambda>ip. ip @ [newline]) ks)) = (ks, False)"
    by simp_all
  have "scanLines [] (k @ newline # concat (map (\<lambda>ip. ip @ [newline]) ks)) =
          (dropCR ([] @ k) # fst (scanLines [] (concat (map (\<lambda>ip. ip @ [newline]) ks))),
           snd (scanLines [] (concat (map (\<lambda>ip. ip @ [newline]) ks))))"
    using k by (intro scanLines_line) (simp_all add: lineSafe_def)
  then show ?case
    using k by (simp add: ks dropCR_safe)
qed

lemma writeAll_written:
  "\<forall>ip \<in> set keys. wr ip = Written \<Longrightarrow>
   writeAll wr keys m =
     Returns None (m\<lparr>mu := RUnlock (mu m),
                     blacklistFile := blacklistFile m @ concat (map (\<lambda>ip. ip @ [newline]) keys)\<rparr>)"
  by (induction keys arbitrary: m) simp_all

lemma RUnlock_RLock: "RLock l = Some l' \<Longrightarrow> RUnlock l' = l"
  by (auto simp: RLock_def RUnlock_def split: if_splits)

lemma saveBlacklist_written:
  assumes "\<not> writer (mu m) \<and> waiting (mu m) = 0" and "\<forall>ip \<in> set keys. wr ip = Written"
  shows "saveBlacklist True keys wr m =
     Returns None (m\<lparr>blacklistFile := concat (map (\<lambda>ip. ip @ [newline]) keys)\<rparr>)"
proof -
  obtain l where l: "RLock (mu m) = Some l"
    using assms(1) by (simp add: RLock_def)
  show ?thesis
    using RUnlock_RLock [OF l] by (simp add: saveBlacklist_def l writeAll_written [OF assms(2)])
qed

lemma loadLines_other:
  "ip \<notin> set toks \<Longrightarrow> bannedIPs (loadLines d clock i toks m) ip = bannedIPs m ip"
  by (induction toks arbitrary: i m) simp_all

lemma loadLines_nth:
  "distinct toks \<Longrightarrow> [] \<notin> set toks \<Longrightarrow> j < length toks \<Longrightarrow>
   bannedIPs (loadLines d clock i toks m) (toks ! j) = Some (clock (i + j) + d)"
proof (induction toks arbitrary: i j m)
  case Nil
  then show ?case by simp
next
  case (Cons k ks)
  show ?case
  proof (cases j)
    case 0
    then show ?thesis
      using Cons.prems by (auto simp: loadLines_other)
  next
    case (Suc j')
    then show ?thesis
      using Cons.prems Cons.IH [of j' "Suc i"] by simp
  qed
qed

lemma loadLines_dom:
  "[] \<notin> set toks \<Longrightarrow> dom (bannedIPs (loadLines d clock i toks m)) = dom (bannedIPs m) \<union> set toks"
  by (induction toks arbitrary: i m) auto

lemma twoBans_state:
  "\<not> writer (mu twoBans) \<and> waiting (mu twoBans) = 0" "dom (bannedIPs twoBans) = {''10.0.0.1'', ''10.0.0.22''}"
  "bannedIPs twoBans ''10.0.0.1'' = Some (10 + 24 * Hour)"
  "bannedIPs twoBans ''10.0.0.22'' = Some (20 + 24 * Hour)"
  "bannedIPs twoBans ''10.0.0.2'' = None"
  by (auto simp: twoBans_def NewMonitor_def unlocked_def)

text \<open>
  The two functions taken by themselves: a save that finds the mutex free, opens the file
  and completes every write leaves one line per banned address, and a new monitor that
  loads this file gets Ban Records for exactly those addresses, the expiry of the address
  on line \<open>j\<close> being the clock at line \<open>j\<close> plus the configured ban duration.
\<close>

lemma round_trip_with_mutex_free:
  assumes "\<not> writer (mu m) \<and> waiting (mu m) = 0"
    and "distinct keys" and "set keys = dom (bannedIPs m)"
    and "\<forall>ip \<in> set keys. lineSafe ip"
    and "\<forall>ip \<in> set keys. wr ip = Written"
    and "saved = saveBlacklist True keys wr m"
    and "loaded = loadBlacklist cfg True None clock (NewMonitor (blacklistFile (after saved)))"
  shows "returned saved
       \<and> blacklistFile (after saved) = concat (map (\<lambda>ip. ip @ [newline]) keys)
       \<and> fst loaded = None
       \<and> dom (bannedIPs (snd loaded)) = dom (bannedIPs m)
       \<and> card (dom (bannedIPs (snd loaded))) = length keys
       \<and> (\<forall>j < length keys. bannedIPs (snd loaded) (keys ! j) = Some (clock j + banDuration cfg))"
proof -
  have s: "saved = Returns None (m\<lparr>blacklistFile := concat (map (\<lambda>ip. ip @ [newline]) keys)\<rparr>)"
    using assms(6) saveBlacklist_written [OF assms(1,5)] by simp
  have ne: "[] \<notin> set keys"
    using assms(4) by (auto simp: lineSafe_def)
  have l: "loaded = (None, loadLines (banDuration cfg) clock 0 keys
                            (NewMonitor (concat (map (\<lambda>ip. ip @ [newline]) keys))))"
    using assms(7) by (simp add: s loadBlacklist_def NewMonitor_def scanLines_saved [OF assms(4)])
  have d: "dom (bannedIPs (snd loaded)) = set keys"
    by (simp add: l loadLines_dom [OF ne] NewMonitor_def)
  have n: "\<forall>j < length keys. bannedIPs (snd loaded) (keys ! j) = Some (clock j + banDuration cfg)"
    using loadLines_nth [OF assms(2) ne, of _ "banDuration cfg" clock 0] by (simp add: l)
  have c: "card (dom (bannedIPs m)) = length keys"
    using distinct_card [OF assms(2)] assms(3) by simp
  show ?thesis
    using d n c assms(3) by (simp add: s l)
qed

lemma round_trip_example:
  "\<not> writer (mu twoBans) \<and> distinct twoKeys \<and> set twoKeys = dom (bannedIPs twoBans)
   \<and> lineSafe ''10.0.0.1'' \<and> lineSafe ''10.0.0.22''
   \<and> bannedIPs twoBans ''10.0.0.1'' = Some (10 + 24 * Hour)
   \<and> blacklistFile (after (saveBlacklist True twoKeys (\<lambda>ip. Written) twoBans))
       = ''10.0.0.1'' @ [newline] @ ''10.0.0.22'' @ [newline]
   \<and> fst (loadBlacklist cfg3 True None (\<lambda>j. 1000 + int j)
        (NewMonitor (blacklistFile (after (saveBlacklist True twoKeys (\<lambda>ip. Written) twoBans))))) = None
   \<and> bannedIPs (snd (loadBlacklist cfg3 True None (\<lambda>j. 1000 + int j)
        (NewMonitor (blacklistFile (after (saveBlacklist True twoKeys (\<lambda>ip. Written) twoBans))))))
        ''10.0.0.1'' = Some (1000 + 24 * Hour)
   \<and> bannedIPs (snd (loadBlacklist cfg3 True None (\<lambda>j. 1000 + int j)
        (NewMonitor (blacklistFile (after (saveBlacklist True twoKeys (\<lambda>ip. Written) twoBans))))))
        ''10.0.0.22'' = Some (1001 + 24 * Hour)"
proof -
  have a: "\<not> writer (mu twoBans) \<and> waiting (mu twoBans) = 0" and b: "distinct twoKeys"
    and c: "set twoKeys = dom (bannedIPs twoBans)"
    and d: "\<forall>ip \<in> set twoKeys. lineSafe ip"
    and e: "\<forall>ip \<in> set twoKeys. (\<lambda>ip. Written) ip = Written"
    by (auto simp: twoBans_state twoKeys_def lineSafe_def newline_def MaxScanTokenSize_def)
  let ?saved = "saveBlacklist True twoKeys (\<lambda>ip. Written) twoBans"
  let ?loaded = "loadBlacklist cfg3 True None (\<lambda>j. 1000 + int j)
                   (NewMonitor (blacklistFile (after ?saved)))"
  note t = round_trip_with_mutex_free [OF a b c d e refl refl, of cfg3 "\<lambda>j. 1000 + int j"]
  have f: "blacklistFile (after ?saved) = concat (map (\<lambda>ip. ip @ [newline]) twoKeys)"
    using t by blast
  have g: "fst ?loaded = None"
    using t by blast
  have n: "\<forall>j < length twoKeys.
             bannedIPs (snd ?loaded) (twoKeys ! j) = Some (1000 + int j + banDuration cfg3)"
    using t by blast
  have n0: "bannedIPs (snd ?loaded) ''10.0.0.1'' = Some (1000 + 24 * Hour)"
    using n [THEN spec, of 0] by (simp add: twoKeys_def cfg3_values)
  have n1: "bannedIPs (snd ?loaded) ''10.0.0.22'' = Some (1001 + 24 * Hour)"
    using n [THEN spec, of 1] by (simp add: twoKeys_def cfg3_values)
  have s: "lineSafe ''10.0.0.1''" "lineSafe ''10.0.0.22''"
    using d by (simp_all add: twoKeys_def)
  have f': "blacklistFile (after ?saved) = ''10.0.0.1'' @ [newline] @ ''10.0.0.22'' @ [newline]"
    using f by (simp add: twoKeys_def)
  have a': "\<not> writer (mu twoBans)"
    using a by simp
  show ?thesis
    by (intro conjI a' b c s twoBans_state(3) f' g n0 n1)
qed

lemma saveBlacklist_under_write_lock:
  "writer (mu m) \<Longrightarrow> saveBlacklist True keys wr m = Blocks (m\<lparr>blacklistFile := []\<rparr>)"
  by (simp add: saveBlacklist_def RLock_def)

lemma restoredTwice_state:
  "mu restoredTwice = unlocked" "blacklistFile restoredTwice = ''10.0.0.9'' @ [newline]"
  "bannedIPs restoredTwice ''10.0.0.9'' = Some (24 * Hour)"
  "bannedIPs restoredTwice ''10.0.0.1'' = None"
  "attempts restoredTwice ''10.0.0.1'' = 2"
  by (simp_all add: restoredTwice_def restored_def started_def loadBlacklist_def NewMonitor_def
      newline_def MaxScanTokenSize_def dropCR_def cfg3_def banDuration_def attempts_def Let_def
      handleFailedLogin_def isIPBanned_def Lock_def Unlock_def unlocked_def emit_def int64_def
      calm_def NotifyLoginFailed_def SendMessage_def Hour_def)

lemma restoredTwice_ban:
  assumes "nowCheck e = 3" and "nowBan e = 3" and "banOk e" and "openOk e"
  shows "handleFailedLogin cfg3 e ''10.0.0.1'' restoredTwice =
     Blocks (restoredTwice\<lparr>failedAttempts := (failedAttempts restoredTwice)(''10.0.0.1'' \<mapsto> 3),
               bannedIPs := (bannedIPs restoredTwice)(''10.0.0.1'' \<mapsto> 3 + 24 * Hour),
               mu := unlocked\<lparr>writer := True\<rparr>,
               blacklistFile := [],
               out := out restoredTwice @ [LogLoginFailed ''10.0.0.1'' 3 3, FirewallBan ''10.0.0.1'']\<rparr>)"
proof -
  have nb: "\<not> fst (isIPBanned (nowCheck e) ''10.0.0.1'' restoredTwice)"
    "snd (isIPBanned (nowCheck e) ''10.0.0.1'' restoredTwice) = restoredTwice"
    by (simp_all add: isIPBanned_absent restoredTwice_state)
  have n: "int64 (attempts restoredTwice ''10.0.0.1'' + 1) = 3"
    by (simp add: restoredTwice_state int64_def)
  have "MaxFailedAttempts cfg3 \<le> int64 (attempts restoredTwice ''10.0.0.1'' + 1)"
    by (simp add: n cfg3_values)
  note h = handleFailedLogin_ban_blocks [OF restoredTwice_state(1) nb(1) refl refl,
      unfolded nb(2), OF this assms(3,4)]
  show ?thesis
    using h by (simp add: n assms cfg3_values)
qed

text \<open>
  C7. In the program \<open>saveBlacklist\<close> is called from \<open>banIP\<close> alone, under the write
  lock of the failure handler, and there the round trip fails. A monitor is started on a
  file that lists \<open>10.0.0.9\<close>; \<open>10.0.0.1\<close> fails three times and is banned, so two
  addresses are banned when the save begins. The save empties the file and waits for the
  read lock: the file holds no line, and a monitor started on it has a Ban Record for
  neither address, where the round-trip law promises both.
\<close>

theorem enforced_ban_not_restored:
  "blacklistFile restoredTwice = ''10.0.0.9'' @ [newline]
   \<and> bannedIPs restoredTwice ''10.0.0.9'' = Some (24 * Hour)
   \<and> keyOrder (afterRestore 3) = [''10.0.0.9'', ''10.0.0.1'']
   \<and> \<not> returned (handleFailedLogin cfg3 (afterRestore 3) ''10.0.0.1'' restoredTwice)
   \<and> bannedIPs secondBan ''10.0.0.9'' = Some (24 * Hour)
   \<and> bannedIPs secondBan ''10.0.0.1'' = Some (3 + 24 * Hour)
   \<and> blacklistFile secondBan = []
   \<and> loadBlacklist cfg3 True None (\<lambda>j. 100) (NewMonitor (blacklistFile secondBan))
       = (None, NewMonitor [])
   \<and> bannedIPs (started cfg3 True None (\<lambda>j. 100) (blacklistFile secondBan)) ''10.0.0.9'' = None
   \<and> bannedIPs (started cfg3 True None (\<lambda>j. 100) (blacklistFile secondBan)) ''10.0.0.1'' = None"
proof -
  have e: "nowCheck (afterRestore 3) = 3" "nowBan (afterRestore 3) = 3" "banOk (afterRestore 3)"
    "openOk (afterRestore 3)"
    by (simp_all add: afterRestore_def env_values)
  note h = restoredTwice_ban [OF e]
  have k: "keyOrder (afterRestore 3) = [''10.0.0.9'', ''10.0.0.1'']"
    by (simp add: afterRestore_def)
  have n: "\<not> returned (handleFailedLogin cfg3 (afterRestore 3) ''10.0.0.1'' restoredTwice)"
    by (simp add: h)
  have s: "bannedIPs secondBan ''10.0.0.9'' = Some (24 * Hour)"
    "bannedIPs secondBan ''10.0.0.1'' = Some (3 + 24 * Hour)" "blacklistFile secondBan = []"
    by (simp_all add: secondBan_def h restoredTwice_state)
  have l: "loadBlacklist cfg3 True None (\<lambda>j. 100) (NewMonitor (blacklistFile secondBan))
       = (None, NewMonitor [])"
    by (simp add: s loadBlacklist_def NewMonitor_def)
  have b: "bannedIPs (started cfg3 True None (\<lambda>j. 100) (blacklistFile secondBan)) ''10.0.0.9'' = None"
    "bannedIPs (started cfg3 True None (\<lambda>j. 100) (blacklistFile secondBan)) ''10.0.0.1'' = None"
    by (simp_all add: started_def l) (simp_all add: NewMonitor_def)
  show ?thesis
    by (intro conjI restoredTwice_state(2) restoredTwice_state(3) k n s l b)
qed

subsection \<open>A save that fails\<close>

text \<open>
  The save taken by itself, with the mutex free: at the first write that fails it returns
  the error, leaving in the file the lines written before it and the bytes of the failing
  line that were written; and \<open>banIP\<close> goes on in the same way whatever the save returned.
\<close>

lemma writeAll_fails:
  "\<forall>a \<in> set pre. wr a = Written \<Longrightarrow> wr ip = WriteFailed n \<Longrightarrow>
   writeAll wr (pre @ ip # post) m =
     Returns (Some WriteError)
       (m\<lparr>blacklistFile := blacklistFile m @ savedLines pre @ take n (ip @ [newline])\<rparr>)"
  by (induction pre arbitrary: m) (simp_all add: savedLines_def)

lemma saveBlacklist_fails:
  assumes "\<not> writer (mu m) \<and> waiting (mu m) = 0"
    and "\<forall>a \<in> set pre. wr a = Written" and "wr ip = WriteFailed n"
  shows "saveBlacklist True (pre @ ip # post) wr m =
     Returns (Some WriteError)
       (m\<lparr>mu := (mu m)\<lparr>readers := Suc (readers (mu m))\<rparr>,
           blacklistFile := savedLines pre @ take n (ip @ [newline])\<rparr>)"
  using assms(1) by (simp add: saveBlacklist_def RLock_def writeAll_fails [OF assms(2,3)])

lemma banIP_drops_error:
  assumes "banOk e"
    and "saveBlacklist (openOk e) (keyOrder e) (writeRes e)
           (emit [FirewallBan ip] (m\<lparr>bannedIPs := (bannedIPs m)(ip \<mapsto> nowBan e + banDuration cfg)\<rparr>))
         = Returns err m2"
  shows "banIP cfg e ip m =
     Returns ()
       (snd (NotifyIPBanned cfg (sendBannedOk e) ip (banDuration cfg) (nowBan e + banDuration cfg)
          (emit [LogBanned ip (BanDurationHours cfg) (nowBan e + banDuration cfg)] m2)))"
  using assms by (simp add: banIP_def Let_def)

text \<open>
  C10. On the ban path the save never gets to a write, failing or not. The file lists
  \<open>10.0.0.9\<close>, whose ban was restored from it; \<open>10.0.0.1\<close> reaches the threshold on a
  disk where the line of \<open>10.0.0.9\<close> can be written and the write of the line of
  \<open>10.0.0.1\<close> fails. The save empties the file and then waits for the read lock under
  the write lock of its caller: the file is left empty, not holding the one line written
  before the failure; no write is attempted, so the handler behaves as on a sound disk;
  and no error is returned for the caller to discard, since the save does not return.
\<close>

theorem failing_write_never_reached:
  "blacklistFile restoredTwice = ''10.0.0.9'' @ [newline]
   \<and> keyOrder (fullDisk 3) = [''10.0.0.9'', ''10.0.0.1'']
   \<and> writeRes (fullDisk 3) ''10.0.0.9'' = Written
   \<and> writeRes (fullDisk 3) ''10.0.0.1'' = WriteFailed 0
   \<and> \<not> returned (handleFailedLogin cfg3 (fullDisk 3) ''10.0.0.1'' restoredTwice)
   \<and> blacklistFile (after (handleFailedLogin cfg3 (fullDisk 3) ''10.0.0.1'' restoredTwice)) = []
   \<and> handleFailedLogin cfg3 (fullDisk 3) ''10.0.0.1'' restoredTwice
       = handleFailedLogin cfg3 (afterRestore 3) ''10.0.0.1'' restoredTwice
   \<and> saveBlacklist True (keyOrder (fullDisk 3)) (writeRes (fullDisk 3))
         (restoredTwice\<lparr>mu := unlocked\<lparr>writer := True\<rparr>\<rparr>)
       = Blocks (restoredTwice\<lparr>mu := unlocked\<lparr>writer := True\<rparr>, blacklistFile := []\<rparr>)"
proof -
  have e: "nowCheck (fullDisk 3) = 3" "nowBan (fullDisk 3) = 3" "banOk (fullDisk 3)"
    "openOk (fullDisk 3)"
    by (simp_all add: fullDisk_def afterRestore_def env_values)
  have e': "nowCheck (afterRestore 3) = 3" "nowBan (afterRestore 3) = 3" "banOk (afterRestore 3)"
    "openOk (afterRestore 3)"
    by (simp_all add: afterRestore_def env_values)
  note h = restoredTwice_ban [OF e]
  have k: "keyOrder (fullDisk 3) = [''10.0.0.9'', ''10.0.0.1'']"
    "writeRes (fullDisk 3) ''10.0.0.9'' = Written" "writeRes (fullDisk 3) ''10.0.0.1'' = WriteFailed 0"
    by (simp_all add: fullDisk_def afterRestore_def)
  have n: "\<not> returned (handleFailedLogin cfg3 (fullDisk 3) ''10.0.0.1'' restoredTwice)"
    "blacklistFile (after (handleFailedLogin cfg3 (fullDisk 3) ''10.0.0.1'' restoredTwice)) = []"
    by (simp_all add: h)
  have q: "handleFailedLogin cfg3 (fullDisk 3) ''10.0.0.1'' restoredTwice
       = handleFailedLogin cfg3 (afterRestore 3) ''10.0.0.1'' restoredTwice"
    by (simp only: h restoredTwice_ban [OF e'])
  have w: "saveBlacklist True (keyOrder (fullDisk 3)) (writeRes (fullDisk 3))
         (restoredTwice\<lparr>mu := unlocked\<lparr>writer := True\<rparr>\<rparr>)
       = Blocks (restoredTwice\<lparr>mu := unlocked\<lparr>writer := True\<rparr>, blacklistFile := []\<rparr>)"
    using saveBlacklist_under_write_lock [of "restoredTwice\<lparr>mu := unlocked\<lparr>writer := True\<rparr>\<rparr>"]
    by simp
  show ?thesis
    by (intro conjI restoredTwice_state(2) k n q w)
qed


subsection \<open>Notifications that fail\<close>

lemma handleSuccessfulLogin_eq:
  "handleSuccessfulLogin cfg ok ip m =
     m\<lparr>out := out m @ LogLoginSuccess ip #
            (if LoginSuccessEnabled cfg then [TelegramSend (LoginSuccessMsg ip) ok] else [])\<rparr>"
  by (simp add: handleSuccessfulLogin_def NotifyLoginSuccess_def SendMessage_def emit_def)

text \<open>
  C9, as claimed, fails: a send that fails is not logged. With Telegram refusing every
  message, the handler of a successful login logs the login and hands the message to the
  bot, and the handler of a first failed login logs the failure and hands the message to
  the bot; in both the refused send is the last event, and no log entry follows it.
\<close>

theorem send_failure_not_logged:
  "out (handleSuccessfulLogin cfg3 False ''10.0.0.1'' (NewMonitor [])) =
     [LogLoginSuccess ''10.0.0.1'', TelegramSend (LoginSuccessMsg ''10.0.0.1'') False]
   \<and> returned (handleFailedLogin cfg3 (deaf 1) ''10.0.0.1'' (NewMonitor []))
   \<and> out (after (handleFailedLogin cfg3 (deaf 1) ''10.0.0.1'' (NewMonitor []))) =
       [LogLoginFailed ''10.0.0.1'' 1 3, TelegramSend (LoginFailedMsg ''10.0.0.1'' 1 3) False]"
proof -
  have m: "mu (NewMonitor []) = unlocked" "out (NewMonitor []) = []"
    and b: "\<not> fst (isIPBanned (nowCheck (deaf 1)) ''10.0.0.1'' (NewMonitor []))"
    and n: "int64 (attempts (snd (isIPBanned (nowCheck (deaf 1)) ''10.0.0.1'' (NewMonitor []))) ''10.0.0.1'' + 1) = 1"
    by (simp_all add: NewMonitor_def isIPBanned_def attempts_def int64_def)
  have "int64 (attempts (snd (isIPBanned (nowCheck (deaf 1)) ''10.0.0.1'' (NewMonitor []))) ''10.0.0.1'' + 1)
          < MaxFailedAttempts cfg3"
    by (simp add: n cfg3_values)
  note h = handleFailedLogin_counts [OF m(1) b refl refl this, unfolded n]
  show ?thesis
    by (simp add: h handleSuccessfulLogin_eq m cfg3_values) (simp add: deaf_def calm_def)
qed

text \<open>
  C9, amended. The outcome of a send changes nothing in what the monitor does. The
  handler of a successful login logs the login and makes at most one send. For the
  handler of a failed login, take any two worlds that differ only in whether the ban
  notification and the failure notification are delivered: the handler returns in one
  exactly if it returns in the other, leaves the same counts, bans, mutex and blacklist
  file, and sends the same events in the same order, apart from the outcome recorded
  with each send; and it makes at most two sends. So the error of a failed send is
  dropped: it is not logged, does not reach the caller and is not retried.
\<close>

theorem send_outcome_discarded:
  "handleSuccessfulLogin cfg ok ip m =
     m\<lparr>out := out m @ LogLoginSuccess ip #
            (if LoginSuccessEnabled cfg then [TelegramSend (LoginSuccessMsg ip) ok] else [])\<rparr>
   \<and> returned (handleFailedLogin cfg (e\<lparr>sendBannedOk := a, sendFailedOk := b\<rparr>) ip m)
       = returned (handleFailedLogin cfg e ip m)
   \<and> failedAttempts (after (handleFailedLogin cfg (e\<lparr>sendBannedOk := a, sendFailedOk := b\<rparr>) ip m))
       = failedAttempts (after (handleFailedLogin cfg e ip m))
   \<and> bannedIPs (after (handleFailedLogin cfg (e\<lparr>sendBannedOk := a, sendFailedOk := b\<rparr>) ip m))
       = bannedIPs (after (handleFailedLogin cfg e ip m))
   \<and> mu (after (handleFailedLogin cfg (e\<lparr>sendBannedOk := a, sendFailedOk := b\<rparr>) ip m))
       = mu (after (handleFailedLogin cfg e ip m))
   \<and> blacklistFile (after (handleFailedLogin cfg (e\<lparr>sendBannedOk := a, sendFailedOk := b\<rparr>) ip m))
       = blacklistFile (after (handleFailedLogin cfg e ip m))
   \<and> map quiet (out (after (handleFailedLogin cfg (e\<lparr>sendBannedOk := a, sendFailedOk := b\<rparr>) ip m)))
       = map quiet (out (after (handleFailedLogin cfg e ip m)))
   \<and> length (filter isSend (out (after (handleFailedLogin cfg e ip m))))
       \<le> length (filter isSend (out m)) + 2"
proof -
  define e' where "e' = e\<lparr>sendBannedOk := a, sendFailedOk := b\<rparr>"
  let ?n = "int64 (attempts (snd (isIPBanned (nowCheck e) ip m)) ip + 1)"
  have s: "nowCheck e' = nowCheck e" "nowBan e' = nowBan e" "banOk e' = banOk e" "openOk e' = openOk e"
    by (simp_all add: e'_def)
  consider (waits) "writer (mu m) \<or> 0 < readers (mu m) \<or> 0 < waiting (mu m)"
    | (banned) "mu m = unlocked" "fst (isIPBanned (nowCheck e) ip m)"
    | (counts) "mu m = unlocked" "\<not> fst (isIPBanned (nowCheck e) ip m)" "?n < MaxFailedAttempts cfg"
    | (refused) "mu m = unlocked" "\<not> fst (isIPBanned (nowCheck e) ip m)" "MaxFailedAttempts cfg \<le> ?n" "\<not> banOk e"
    | (unsaved) "mu m = unlocked" "\<not> fst (isIPBanned (nowCheck e) ip m)" "MaxFailedAttempts cfg \<le> ?n" "banOk e" "\<not> openOk e"
    | (blocks) "mu m = unlocked" "\<not> fst (isIPBanned (nowCheck e) ip m)" "MaxFailedAttempts cfg \<le> ?n" "banOk e" "openOk e"
    using Lock_free [of "mu m"] by (fastforce simp: Lock_def)
  then have h: "returned (handleFailedLogin cfg e' ip m) = returned (handleFailedLogin cfg e ip m)
       \<and> failedAttempts (after (handleFailedLogin cfg e' ip m))
           = failedAttempts (after (handleFailedLogin cfg e ip m))
       \<and> bannedIPs (after (handleFailedLogin cfg e' ip m))
           = bannedIPs (after (handleFailedLogin cfg e ip m))
       \<and> mu (after (handleFailedLogin cfg e' ip m)) = mu (after (handleFailedLogin cfg e ip m))
       \<and> blacklistFile (after (handleFailedLogin cfg e' ip m))
           = blacklistFile (after (handleFailedLogin cfg e ip m))
       \<and> map quiet (out (after (handleFailedLogin cfg e' ip m)))
           = map quiet (out (after (handleFailedLogin cfg e ip m)))
       \<and> length (filter isSend (out (after (handleFailedLogin cfg e ip m))))
           \<le> length (filter isSend (out m)) + 2"
  proof cases
    case waits
    then show ?thesis
      by (simp add: handleFailedLogin_waits)
  next
    case banned
    then obtain t where t: "bannedIPs m ip = Some t" "nowCheck e < t"
      by (auto simp: isIPBanned_maps)
    from t have t': "nowCheck e' < t" by (simp add: s)
    show ?thesis
      by (simp add: handleFailedLogin_rejects [OF banned(1) t]
          handleFailedLogin_rejects [OF banned(1) t(1) t'] emit_def)
  next
    case counts
    note h = handleFailedLogin_counts [OF counts(1,2) refl refl counts(3)]
    note h' = handleFailedLogin_counts [OF counts(1) counts(2) [folded s(1)] refl refl counts(3) [folded s(1)]]
    show ?thesis
      by (simp add: h h' s isIPBanned_keeps)
  next
    case refused
    note h = handleFailedLogin_ban_refused [OF refused(1,2) refl refl refused(3,4)]
    note h' = handleFailedLogin_ban_refused [OF refused(1) refused(2) [folded s(1)] refl refl
        refused(3) [folded s(1)] refused(4) [folded s(3)]]
    show ?thesis
      by (simp add: h h' s isIPBanned_keeps)
  next
    case unsaved
    note h = handleFailedLogin_ban_unsaved [OF unsaved(1,2) refl refl unsaved(3,4,5)]
    note h' = handleFailedLogin_ban_unsaved [OF unsaved(1) unsaved(2) [folded s(1)] refl refl
        unsaved(3) [folded s(1)] unsaved(4) [folded s(3)] unsaved(5) [folded s(4)]]
    show ?thesis
      by (simp add: h h' s isIPBanned_keeps)
  next
    case blocks
    note h = handleFailedLogin_ban_blocks [OF blocks(1,2) refl refl blocks(3,4,5)]
    note h' = handleFailedLogin_ban_blocks [OF blocks(1) blocks(2) [folded s(1)] refl refl
        blocks(3) [folded s(1)] blocks(4) [folded s(3)] blocks(5) [folded s(4)]]
    show ?thesis
      by (simp add: h h' s isIPBanned_keeps)
  qed
  show ?thesis
    using h unfolding e'_def by (intro conjI handleSuccessfulLogin_eq) simp_all
qed

subsection \<open>The log reader\<close>

lemma tailLoop_append:
  "tailLoop cfg (rs @ rs') m =
     (case tailLoop cfg rs m of
        Reading m' \<Rightarrow> tailLoop cfg rs' m'
      | Fatal err m' \<Rightarrow> Fatal err m'
      | Stuck m' \<Rightarrow> Stuck m')"
  by (induction cfg rs m rule: tailLoop.induct) (simp_all split: option.splits run.splits)

lemma extract_failed: "contains ''Failed password'' failedLine" "findSubmatch failedLine = Some ''10.0.0.1''"
  by (simp_all add: failedLine_def newline_def matchIPv4_def digitsDot_def isDigit_def)

lemma extract_accepted:
  "\<not> contains ''Failed password'' acceptedLine" "contains ''Accepted password'' acceptedLine"
  "findSubmatch acceptedLine = Some ''10.0.0.7''"
  by (simp_all add: acceptedLine_def newline_def matchIPv4_def digitsDot_def isDigit_def)

lemma handleFailedLogin_out: "\<exists>es. out (after (handleFailedLogin cfg e a m)) = out m @ es"
proof -
  let ?n = "int64 (attempts (snd (isIPBanned (nowCheck e) a m)) a + 1)"
  consider (waits) "Lock (mu m) = None"
    | (banned) "mu m = unlocked" "fst (isIPBanned (nowCheck e) a m)"
    | (counts) "mu m = unlocked" "\<not> fst (isIPBanned (nowCheck e) a m)" "?n < MaxFailedAttempts cfg"
    | (refused) "mu m = unlocked" "\<not> fst (isIPBanned (nowCheck e) a m)" "MaxFailedAttempts cfg \<le> ?n" "\<not> banOk e"
    | (unsaved) "mu m = unlocked" "\<not> fst (isIPBanned (nowCheck e) a m)" "MaxFailedAttempts cfg \<le> ?n" "banOk e" "\<not> openOk e"
    | (blocks) "mu m = unlocked" "\<not> fst (isIPBanned (nowCheck e) a m)" "MaxFailedAttempts cfg \<le> ?n" "banOk e" "openOk e"
    using Lock_free [of "mu m"] by fastforce
  then show ?thesis
  proof cases
    case waits
    then show ?thesis by (simp add: handleFailedLogin_def)
  next
    case banned
    then obtain t where "bannedIPs m a = Some t" "nowCheck e < t"
      by (auto simp: isIPBanned_def split: option.splits if_splits)
    from handleFailedLogin_rejects [OF banned(1) this, of cfg]
    show ?thesis by (simp add: emit_def)
  next
    case counts
    from handleFailedLogin_counts [OF counts(1,2) refl refl counts(3)]
    show ?thesis by simp
  next
    case refused
    from handleFailedLogin_ban_refused [OF refused(1,2) refl refl refused(3,4)]
    show ?thesis by simp
  next
    case unsaved
    from handleFailedLogin_ban_unsaved [OF unsaved(1,2) refl refl unsaved(3,4,5)]
    show ?thesis by simp
  next
    case blocks
    from handleFailedLogin_ban_blocks [OF blocks(1,2) refl refl blocks(3,4,5)]
    show ?thesis by simp
  qed
qed

lemma handleSuccessfulLogin_out: "\<exists>es. out (handleSuccessfulLogin cfg ok a m) = out m @ es"
  by (simp add: handleSuccessfulLogin_eq)

lemma tailLoop_out: "\<exists>es. out (tailState (tailLoop cfg rs m)) = out m @ es"
proof (induction cfg rs m rule: tailLoop.induct)
  case (1 cfg m)
  then show ?case by simp
next
  case (2 cfg e rs m)
  then show ?case by (auto simp: emit_def)
next
  case (3 cfg e rs m)
  then show ?case by simp
next
  case (4 cfg l e rs m)
  show ?case
  proof (cases "contains ''Failed password'' l")
    case True
    show ?thesis
    proof (cases "findSubmatch l")
      case None
      then show ?thesis using True 4(1) [OF True None] by simp
    next
      case (Some ip)
      obtain es where es: "out (after (handleFailedLogin cfg e ip m)) = out m @ es"
        using handleFailedLogin_out by blast
      show ?thesis
      proof (cases "handleFailedLogin cfg e ip m")
        case (Returns u m1)
        from 4(2) [OF True Some Returns] obtain es' where
          "out (tailState (tailLoop cfg rs m1)) = out m1 @ es'" by blast
        then show ?thesis
          using True Some Returns es by simp
      next
        case (Blocks m1)
        then show ?thesis
          using True Some es by simp
      qed
    qed
  next
    case False
    show ?thesis
    proof (cases "contains ''Accepted password'' l")
      case True
      show ?thesis
      proof (cases "findSubmatch l")
        case None
        then show ?thesis using False True 4(3) [OF False True None] by simp
      next
        case (Some ip)
        obtain es where es: "out (handleSuccessfulLogin cfg (sendSuccessOk e) ip m) = out m @ es"
          using handleSuccessfulLogin_out by blast
        from 4(4) [OF False True Some] obtain es' where
          "out (tailState (tailLoop cfg rs (handleSuccessfulLogin cfg (sendSuccessOk e) ip m)))
             = out (handleSuccessfulLogin cfg (sendSuccessOk e) ip m) @ es'" by blast
        then show ?thesis
          using False True Some es by simp
      qed
    next
      case F2: False
      then show ?thesis using False 4(5) [OF False F2] by simp
    qed
  qed
qed

lemma tailLoop_sleeps:
  "tailLoop cfg (replicate k (EndOfStream, e)) m = Reading (m\<lparr>out := out m @ replicate k (Sleep 100)\<rparr>)"
proof (induction k arbitrary: m)
  case 0
  then show ?case by simp
next
  case (Suc k)
  show ?case
    by (simp add: Suc emit_def pollMillis_def replicate_app_Cons_same)
qed

text \<open>
  C8. If the log file cannot be opened, \<open>monitorSSHLogs\<close> returns the error at once.
  Otherwise, whatever it reads, the first thing it does is to seek the end of the file.
  A read that meets the end of the stream makes it wait 100 milliseconds, a fixed
  interval that is positive and shorter than a second, and read again: after any number
  of such reads it is still reading, having waited once for each of them and done
  nothing else; and after any reads that left it reading, one more end of stream leaves
  it reading, with that wait as the only change. Any other read error, after any reads
  that left it reading, makes it return that error, which ends the monitoring.
\<close>

theorem tailer_control:
  "monitorSSHLogs cfg False rs m = Fatal OpenError m
   \<and> (\<exists>es. out (tailState (monitorSSHLogs cfg True rs m)) = out m @ SeekEnd # es)
   \<and> pollMillis = 100 \<and> 0 < pollMillis \<and> pollMillis < 1000
   \<and> monitorSSHLogs cfg True (replicate k (EndOfStream, e)) m
       = Reading (m\<lparr>out := out m @ SeekEnd # replicate k (Sleep 100)\<rparr>)
   \<and> (monitorSSHLogs cfg True rs m = Reading m' \<longrightarrow>
         monitorSSHLogs cfg True (rs @ [(EndOfStream, e)]) m
           = Reading (m'\<lparr>out := out m' @ [Sleep 100]\<rparr>)
       \<and> monitorSSHLogs cfg True (rs @ [(ReadFailed, e)]) m = Fatal ReadError m')"
proof -
  have unopened: "monitorSSHLogs cfg False rs m = Fatal OpenError m"
    by (simp add: monitorSSHLogs_def)
  have seek: "\<exists>es. out (tailState (monitorSSHLogs cfg True rs m)) = out m @ SeekEnd # es"
    using tailLoop_out [of cfg rs "emit [SeekEnd] m"] by (simp add: monitorSSHLogs_def emit_def)
  have short: "pollMillis = 100" "0 < pollMillis" "pollMillis < 1000"
    by (simp_all add: pollMillis_def)
  have idle: "monitorSSHLogs cfg True (replicate k (EndOfStream, e)) m
       = Reading (m\<lparr>out := out m @ SeekEnd # replicate k (Sleep 100)\<rparr>)"
    by (simp add: monitorSSHLogs_def tailLoop_sleeps emit_def)
  have more: "monitorSSHLogs cfg True (rs @ [(EndOfStream, e)]) m
           = Reading (m'\<lparr>out := out m' @ [Sleep 100]\<rparr>)"
      "monitorSSHLogs cfg True (rs @ [(ReadFailed, e)]) m = Fatal ReadError m'"
    if "monitorSSHLogs cfg True rs m = Reading m'"
    using that by (simp_all add: monitorSSHLogs_def tailLoop_append emit_def pollMillis_def)
  show ?thesis
    using unopened seek short idle more by simp
qed

theorem tailer_control_witness:
  "monitorSSHLogs cfg3 True [(Line failedLine, calm 1)] (NewMonitor []) = Reading seekFailure
   \<and> out seekFailure =
       [SeekEnd, LogLoginFailed ''10.0.0.1'' 1 3, TelegramSend (LoginFailedMsg ''10.0.0.1'' 1 3) True]
   \<and> monitorSSHLogs cfg3 True ([(Line failedLine, calm 1)] @ [(EndOfStream, calm 2)]) (NewMonitor [])
       = Reading (seekFailure\<lparr>out := out seekFailure @ [Sleep 100]\<rparr>)
   \<and> monitorSSHLogs cfg3 True ([(Line failedLine, calm 1)] @ [(ReadFailed, calm 2)]) (NewMonitor [])
       = Fatal ReadError seekFailure"
proof -
  let ?m = "(NewMonitor [])\<lparr>out := [SeekEnd]\<rparr>"
  have m: "mu ?m = unlocked"
    and b: "\<not> fst (isIPBanned (nowCheck (calm 1)) ''10.0.0.1'' ?m)"
    and n: "int64 (attempts (snd (isIPBanned (nowCheck (calm 1)) ''10.0.0.1'' ?m)) ''10.0.0.1'' + 1) = 1"
    by (simp_all add: NewMonitor_def isIPBanned_def attempts_def int64_def)
  have "int64 (attempts (snd (isIPBanned (nowCheck (calm 1)) ''10.0.0.1'' ?m)) ''10.0.0.1'' + 1)
          < MaxFailedAttempts cfg3"
    by (simp add: n cfg3_values)
  note h = handleFailedLogin_counts [OF m b refl refl this, unfolded n]
  have eq: "emit [SeekEnd] (NewMonitor []) = ?m"
    by (simp add: emit_def NewMonitor_def)
  have r: "monitorSSHLogs cfg3 True [(Line failedLine, calm 1)] (NewMonitor []) = Reading seekFailure"
    by (simp add: monitorSSHLogs_def eq extract_failed seekFailure_def h)
  have o: "out seekFailure =
       [SeekEnd, LogLoginFailed ''10.0.0.1'' 1 3, TelegramSend (LoginFailedMsg ''10.0.0.1'' 1 3) True]"
    by (simp add: seekFailure_def h cfg3_values env_values)
  note t = tailer_control [of cfg3 "[(Line failedLine, calm 1)]" "NewMonitor []" 0 "calm 2" seekFailure]
  have e: "monitorSSHLogs cfg3 True ([(Line failedLine, calm 1)] @ [(EndOfStream, calm 2)]) (NewMonitor [])
       = Reading (seekFailure\<lparr>out := out seekFailure @ [Sleep 100]\<rparr>)"
    using t r by blast
  have f: "monitorSSHLogs cfg3 True ([(Line failedLine, calm 1)] @ [(ReadFailed, calm 2)]) (NewMonitor [])
       = Fatal ReadError seekFailure"
    using t r by blast
  show ?thesis
    by (intro conjI r o e f)
qed


end
